theory Spec2Isabelle
  imports
    Main
    "HOL-Library.Sublist"
    "HOL-Library.AList"
    "HOL-Library.Multiset"
    "HOL-Library.Char_ord"
    "HOL-Library.List_Lexorder"
begin

section \<open>Strings: the library calls the parser makes\<close>

text \<open>
  Go strings are byte sequences; they are modelled as \<^typ>\<open>string\<close>, a list of
  8-bit characters. The order on strings (\<open>HOL-Library.List_Lexorder\<close> over
  \<open>HOL-Library.Char_ord\<close>) is the bytewise lexicographic order, which is what Go's
  \<open><\<close> on strings computes.
\<close>

definition newline :: char where
  "newline = CHR 0x0A"

definition tab :: char where
  "tab = CHR 0x09"

text \<open>\<open>strings.TrimRight(s, "\n")\<close>: every trailing newline is removed.\<close>

definition TrimRightNewline :: "string \<Rightarrow> string" where
  "TrimRightNewline s = rev (dropWhile (\<lambda>c. c = newline) (rev s))"

text \<open>\<open>strings.HasPrefix\<close> is \<^const>\<open>prefix\<close>; \<open>strings.Contains\<close> looks for the
  substring at every position.\<close>

fun Contains :: "string \<Rightarrow> string \<Rightarrow> bool" where
  "Contains [] sub = (sub = [])"
| "Contains (c # s) sub = (prefix sub (c # s) \<or> Contains s sub)"

text \<open>\<open>strings.TrimPrefix\<close>.\<close>

definition TrimPrefix :: "string \<Rightarrow> string \<Rightarrow> string" where
  "TrimPrefix s p = (if prefix p s then drop (length p) s else s)"

text \<open>
  \<open>strings.TrimSpace\<close> removes leading and trailing white space as
  \<open>unicode.IsSpace\<close> defines it. The list holds the UTF-8 encodings of those code
  points: the six ASCII ones, U+0085, U+00A0, U+1680, U+2000 to U+200A, U+2028, U+2029,
  U+202F, U+205F and U+3000.
\<close>

definition white_space :: "string list" where
  "white_space =
     [[CHR 0x09], [CHR 0x0A], [CHR 0x0B], [CHR 0x0C], [CHR 0x0D], [CHR 0x20],
      [CHR 0xC2, CHR 0x85], [CHR 0xC2, CHR 0xA0],
      [CHR 0xE1, CHR 0x9A, CHR 0x80],
      [CHR 0xE2, CHR 0x80, CHR 0x80], [CHR 0xE2, CHR 0x80, CHR 0x81],
      [CHR 0xE2, CHR 0x80, CHR 0x82], [CHR 0xE2, CHR 0x80, CHR 0x83],
      [CHR 0xE2, CHR 0x80, CHR 0x84], [CHR 0xE2, CHR 0x80, CHR 0x85],
      [CHR 0xE2, CHR 0x80, CHR 0x86], [CHR 0xE2, CHR 0x80, CHR 0x87],
      [CHR 0xE2, CHR 0x80, CHR 0x88], [CHR 0xE2, CHR 0x80, CHR 0x89],
      [CHR 0xE2, CHR 0x80, CHR 0x8A],
      [CHR 0xE2, CHR 0x80, CHR 0xA8], [CHR 0xE2, CHR 0x80, CHR 0xA9],
      [CHR 0xE2, CHR 0x80, CHR 0xAF], [CHR 0xE2, CHR 0x81, CHR 0x9F],
      [CHR 0xE3, CHR 0x80, CHR 0x80]]"

text \<open>One leading white-space character is removed per unit of fuel; the length of
  the string is always enough fuel, since each removal shortens the string.\<close>

fun TrimLeftSpaceN :: "nat \<Rightarrow> string \<Rightarrow> string" where
  "TrimLeftSpaceN 0 s = s"
| "TrimLeftSpaceN (Suc n) s =
     (case find (\<lambda>w. prefix w s) white_space of
        None \<Rightarrow> s
      | Some w \<Rightarrow> TrimLeftSpaceN n (drop (length w) s))"

fun TrimRightSpaceN :: "nat \<Rightarrow> string \<Rightarrow> string" where
  "TrimRightSpaceN 0 s = s"
| "TrimRightSpaceN (Suc n) s =
     (case find (\<lambda>w. suffix w s) white_space of
        None \<Rightarrow> s
      | Some w \<Rightarrow> TrimRightSpaceN n (take (length s - length w) s))"

definition TrimSpace :: "string \<Rightarrow> string" where
  "TrimSpace s = (let l = TrimLeftSpaceN (length s) s in TrimRightSpaceN (length l) l)"

text \<open>\<open>fmt.Sprintf("%d", n)\<close> for the line counter and for an integer.\<close>

definition digit_char :: "nat \<Rightarrow> char" where
  "digit_char n = ''0123456789'' ! (n mod 10)"

fun nat_to_string :: "nat \<Rightarrow> string" where
  "nat_to_string n =
     (if n < 10 then [digit_char n] else nat_to_string (n div 10) @ [digit_char (n mod 10)])"

declare nat_to_string.simps [simp del]

definition int_to_string :: "int \<Rightarrow> string" where
  "int_to_string i = (if i < 0 then CHR ''-'' # nat_to_string (nat (- i)) else nat_to_string (nat i))"

section \<open>The parser's data model\<close>

text \<open>
  A finite \<open>float64\<close> is the number \<open>mantissa * 2 ^ exponent\<close> for two integers (the
  mantissa below \<open>2 ^ 53\<close> in absolute value); \<open>json.Unmarshal\<close> decodes a number to a
  finite \<open>float64\<close> or fails.
\<close>

datatype Float64 = Float64 (mantissa: int) (exponent: int)

text \<open>
  \<open>event.Elapsed * float64(time.Second)\<close>: the product with \<open>10 ^ 9\<close> is exact on the
  mantissa and is then rounded to 53 significant bits, ties to even. \<open>excess_bits n\<close> is
  the number of low bits of \<open>n\<close> that do not fit, \<open>round_half_even n k\<close> drops \<open>k\<close> low
  bits of \<open>n\<close>. (A product too small or too large for the exponent range of \<open>float64\<close>
  becomes a subnormal number or an infinity; the conversion below gives 0 for the one and
  the out-of-range value for the other, as it does for the number computed here.)
\<close>

function excess_bits :: "nat \<Rightarrow> nat" where
  "excess_bits n = (if n < 2 ^ 53 then 0 else Suc (excess_bits (n div 2)))"
  by pat_completeness auto
termination
  by (relation "measure (\<lambda>n. n)") auto

declare excess_bits.simps [simp del]

definition round_half_even :: "nat \<Rightarrow> nat \<Rightarrow> nat" where
  "round_half_even n k =
     (if k = 0 then n
      else if 2 ^ (k - 1) < n mod 2 ^ k \<or> (n mod 2 ^ k = 2 ^ (k - 1) \<and> odd (n div 2 ^ k))
           then Suc (n div 2 ^ k)
      else n div 2 ^ k)"

definition times_Second :: "Float64 \<Rightarrow> Float64" where
  "times_Second x =
     (let p = mantissa x * 1000000000; k = excess_bits (nat \<bar>p\<bar>)
      in Float64 (sgn p * int (round_half_even (nat \<bar>p\<bar>) k)) (exponent x + int k))"

text \<open>
  The conversion of a \<open>float64\<close> to \<open>time.Duration\<close>, a signed 64-bit integer: the
  fraction is discarded (towards zero). For a number outside the range of the type Go
  leaves the result to the implementation; \<open>- 2 ^ 63\<close> is what amd64 gives.
\<close>

definition integer_part :: "Float64 \<Rightarrow> int" where
  "integer_part x =
     (if 0 \<le> exponent x then mantissa x * 2 ^ nat (exponent x)
      else sgn (mantissa x) * (\<bar>mantissa x\<bar> div 2 ^ nat (- exponent x)))"

definition to_Duration :: "Float64 \<Rightarrow> int" where
  "to_Duration x =
     (if - (2 ^ 63) \<le> integer_part x \<and> integer_part x < 2 ^ 63 then integer_part x
      else - (2 ^ 63))"

text \<open>\<open>time.Duration(event.Elapsed * float64(time.Second))\<close>.\<close>

definition elapsed_Duration :: "Float64 \<Rightarrow> int" where
  "elapsed_Duration elapsed = to_Duration (times_Second elapsed)"

text \<open>
  \<open>TestEvent\<close>: one decoded line of \<open>go test -json\<close>. The field \<open>Time\<close> is decoded
  but never read and is left out.
\<close>

record TestEvent =
  ev_Action :: string
  ev_Package :: string
  ev_Test :: string
  ev_Elapsed :: Float64
  ev_Output :: string

text \<open>\<open>TestStatus\<close> is a string type with five named constants; \<open>StatusEmpty\<close> is its
  zero value, which a freshly allocated record holds.\<close>

datatype TestStatus =
  StatusRunning | StatusPass | StatusFail | StatusSkip | StatusUnknown | StatusEmpty

record TestResult =
  tr_PackageName :: string
  tr_Name :: string
  tr_Status :: TestStatus
  tr_Output :: "string list"
  tr_Duration :: int

record PackageResult =
  pr_PackageName :: string
  pr_Status :: TestStatus
  pr_SummaryOutput :: "string list"
  pr_Tests :: "TestResult list"
  pr_Duration :: int

text \<open>
  What \<open>bufio.Scanner\<close> and \<open>json.Unmarshal\<close> hand to the loop of \<open>Parse\<close>: each
  scanned line is empty, fails to decode (the raw text is kept), or decodes to an event.
  \<open>ScanErr\<close> is the error \<open>scanner.Err()\<close> reports after the last scanned line, if any.
\<close>

datatype JsonLine = EmptyLine | Malformed string | Decoded TestEvent

record Scanned =
  Lines :: "JsonLine list"
  ScanErr :: "string option"

text \<open>
  The local variables of \<open>Parse\<close>. \<open>currentTestResults\<close> is a Go map that the code
  ranges over, so it is an association list with distinct keys. The order in which a
  \<open>range\<close> visits a map is not fixed by the language: a \<open>RangeOrder\<close> supplies it from
  outside, as any rearrangement of the entries, separately for each line number (line
  number 0 stands for the loop after the last line). \<open>visit ord n m\<close> is the sequence
  in which the \<open>range\<close> at line \<open>n\<close> meets the entries of \<open>m\<close>.
\<close>

record ParseState =
  packageResults :: "string \<rightharpoonup> PackageResult"
  orderedPackageNames :: "string list"
  currentTestResults :: "(string \<times> TestResult) list"
  lineNumber :: nat

typedef RangeOrder =
  "{f :: nat \<Rightarrow> (string \<times> TestResult) list \<Rightarrow> (string \<times> TestResult) list.
      \<forall>n xs. mset (f n xs) = mset xs}"
  by (rule exI [of _ "\<lambda>n xs. xs"]) simp

setup_lifting type_definition_RangeOrder

lift_definition visit ::
  "RangeOrder \<Rightarrow> nat \<Rightarrow> (string \<times> TestResult) list \<Rightarrow> (string \<times> TestResult) list"
  is "\<lambda>f. f" .

text \<open>Two particular orders: the order of insertion, and its reverse.\<close>

lift_definition insertion_order :: RangeOrder is "\<lambda>n xs. xs"
  by simp

lift_definition reverse_order :: RangeOrder is "\<lambda>n xs. rev xs"
  by simp

definition initial_state :: ParseState where
  "initial_state =
     \<lparr>packageResults = Map.empty, orderedPackageNames = [], currentTestResults = [],
      lineNumber = 0\<rparr>"

definition orphanedOutputPackage :: string where
  "orphanedOutputPackage = ''_orphaned_output_''"

fun containsString :: "string list \<Rightarrow> string \<Rightarrow> bool" where
  "containsString [] str = False"
| "containsString (item # slice) str = (if item = str then True else containsString slice str)"

section \<open>The loop body of \<open>Parse\<close>\<close>

text \<open>A line that does not decode is appended, tagged with its line number, to the
  summary of the package that was added last to \<open>orderedPackageNames\<close>; with no package
  yet, the line is only logged.\<close>

definition malformed_text :: "nat \<Rightarrow> string \<Rightarrow> string" where
  "malformed_text n raw = ''[Malformed JSON line '' @ nat_to_string n @ '']: '' @ raw"

definition on_malformed :: "ParseState \<Rightarrow> string \<Rightarrow> ParseState" where
  "on_malformed st raw =
     (if orderedPackageNames st \<noteq> [] then
        (let lastPkgName = last (orderedPackageNames st) in
         case packageResults st lastPkgName of
           Some pkgResult \<Rightarrow>
             st\<lparr>packageResults := (packageResults st)(lastPkgName \<mapsto>
                  pkgResult\<lparr>pr_SummaryOutput :=
                    pr_SummaryOutput pkgResult @ [malformed_text (lineNumber st) raw]\<rparr>)\<rparr>
         | None \<Rightarrow> st)
      else st)"

text \<open>
  ``Ensure package exists in our map''. The lookup uses the package name as decoded; an
  event with no package, no test and action \<open>output\<close> is then renamed to the orphaned
  package, and a fresh \<open>PackageResult\<close> is stored under the (possibly renamed) name.
  \<open>None\<close> is the \<open>continue\<close> that skips the event. The result carries the event with its
  final package name and the \<open>pkgResult\<close> the rest of the body works on.
\<close>

definition new_package :: "string \<Rightarrow> PackageResult" where
  "new_package name =
     \<lparr>pr_PackageName = name, pr_Status = StatusUnknown, pr_SummaryOutput = [],
      pr_Tests = [], pr_Duration = 0\<rparr>"

definition add_package :: "ParseState \<Rightarrow> TestEvent \<Rightarrow> ParseState \<times> TestEvent \<times> PackageResult" where
  "add_package st e =
     (st\<lparr>packageResults := (packageResults st)(ev_Package e \<mapsto> new_package (ev_Package e)),
         orderedPackageNames :=
           (if \<not> containsString (orderedPackageNames st) (ev_Package e)
            then orderedPackageNames st @ [ev_Package e] else orderedPackageNames st)\<rparr>,
      e, new_package (ev_Package e))"

definition ensure_package ::
  "ParseState \<Rightarrow> TestEvent \<Rightarrow> (ParseState \<times> TestEvent \<times> PackageResult) option" where
  "ensure_package st e =
     (case packageResults st (ev_Package e) of
        Some pkgResult \<Rightarrow> Some (st, e, pkgResult)
      | None \<Rightarrow>
          if ev_Package e = [] \<and> ev_Test e = [] \<and> ev_Action e = ''output''
          then Some (add_package st (e\<lparr>ev_Package := orphanedOutputPackage\<rparr>))
          else if ev_Package e = [] then None
          else Some (add_package st e))"

definition testKey :: "TestEvent \<Rightarrow> string" where
  "testKey e = (if ev_Test e \<noteq> [] then ev_Package e @ ''/'' @ ev_Test e else [])"

text \<open>\<open>pkgResult\<close> points into the map at the event's package name: a write through it
  is a write to that entry.\<close>

definition set_package :: "ParseState \<Rightarrow> string \<Rightarrow> PackageResult \<Rightarrow> ParseState" where
  "set_package st pkg pkgResult =
     st\<lparr>packageResults := (packageResults st)(pkg \<mapsto> pkgResult)\<rparr>"

subsection \<open>Action \<open>run\<close>\<close>

definition on_run :: "ParseState \<Rightarrow> TestEvent \<Rightarrow> PackageResult \<Rightarrow> ParseState" where
  "on_run st e pkgResult =
     (if ev_Test e \<noteq> [] then
        st\<lparr>currentTestResults :=
             AList.update (testKey e)
               \<lparr>tr_PackageName = ev_Package e, tr_Name = ev_Test e, tr_Status = StatusRunning,
                tr_Output = [], tr_Duration = 0\<rparr>
               (currentTestResults st)\<rparr>
      else set_package st (ev_Package e) (pkgResult\<lparr>pr_Status := StatusRunning\<rparr>))"

subsection \<open>Action \<open>output\<close>\<close>

text \<open>The loop over \<open>pkgResult.Tests\<close> that appends the line to the first completed
  test of that name; \<open>None\<close> when there is none (\<open>foundAndAppended\<close> stays false).\<close>

fun append_to_completed :: "string \<Rightarrow> string \<Rightarrow> TestResult list \<Rightarrow> TestResult list option" where
  "append_to_completed name outputLine [] = None"
| "append_to_completed name outputLine (t # ts) =
     (if tr_Name t = name then Some (t\<lparr>tr_Output := tr_Output t @ [outputLine]\<rparr> # ts)
      else map_option (\<lambda>ts'. t # ts') (append_to_completed name outputLine ts))"

definition on_output :: "ParseState \<Rightarrow> TestEvent \<Rightarrow> PackageResult \<Rightarrow> ParseState" where
  "on_output st e pkgResult =
     (let outputLine = TrimRightNewline (ev_Output e) in
      if ev_Test e \<noteq> [] then
        (case map_of (currentTestResults st) (testKey e) of
           Some tr \<Rightarrow>
             st\<lparr>currentTestResults :=
                  AList.update (testKey e) (tr\<lparr>tr_Output := tr_Output tr @ [outputLine]\<rparr>)
                    (currentTestResults st)\<rparr>
         | None \<Rightarrow>
             (case append_to_completed (ev_Test e) outputLine (pr_Tests pkgResult) of
                Some ts \<Rightarrow> set_package st (ev_Package e) (pkgResult\<lparr>pr_Tests := ts\<rparr>)
              | None \<Rightarrow>
                  set_package st (ev_Package e) (pkgResult\<lparr>pr_SummaryOutput := pr_SummaryOutput pkgResult @
                    [''['' @ ev_Test e @ ''] '' @ outputLine]\<rparr>)))
      else set_package st (ev_Package e) (pkgResult\<lparr>pr_SummaryOutput := pr_SummaryOutput pkgResult @ [outputLine]\<rparr>))"

subsection \<open>Actions \<open>pass\<close>, \<open>fail\<close>, \<open>skip\<close>\<close>

text \<open>\<open>TestStatus(strings.ToUpper(event.Action))\<close> on the three actions of this case.\<close>

definition terminal_status :: "string \<Rightarrow> TestStatus option" where
  "terminal_status action =
     (if action = ''pass'' then Some StatusPass
      else if action = ''fail'' then Some StatusFail
      else if action = ''skip'' then Some StatusSkip
      else None)"

text \<open>A result without a prior \<open>run\<close>: the summary lines that start with the test's
  name in brackets move to the new record's output, the others stay.\<close>

definition tagged :: "string \<Rightarrow> string \<Rightarrow> bool" where
  "tagged name line = prefix (''['' @ name @ '']'') line"

definition untag :: "string \<Rightarrow> string \<Rightarrow> string" where
  "untag name line = TrimSpace (TrimPrefix line (''['' @ name @ '']''))"

definition on_test_done ::
  "ParseState \<Rightarrow> TestEvent \<Rightarrow> PackageResult \<Rightarrow> TestStatus \<Rightarrow> ParseState" where
  "on_test_done st e pkgResult status =
     (let (tr, pkg1) =
        (case map_of (currentTestResults st) (testKey e) of
           Some tr \<Rightarrow> (tr, pkgResult)
         | None \<Rightarrow>
             (\<lparr>tr_PackageName = ev_Package e, tr_Name = ev_Test e, tr_Status = StatusEmpty,
               tr_Output = map (untag (ev_Test e))
                             (filter (tagged (ev_Test e)) (pr_SummaryOutput pkgResult)),
               tr_Duration = 0\<rparr>,
              pkgResult\<lparr>pr_SummaryOutput :=
                filter (\<lambda>line. \<not> tagged (ev_Test e) line) (pr_SummaryOutput pkgResult)\<rparr>));
          tr' = tr\<lparr>tr_Status := status, tr_Duration := elapsed_Duration (ev_Elapsed e)\<rparr>
      in (set_package st (ev_Package e) (pkg1\<lparr>pr_Tests := pr_Tests pkg1 @ [tr']\<rparr>))
           \<lparr>currentTestResults := AList.delete (testKey e) (currentTestResults st)\<rparr>)"

text \<open>What the two sweeps make of an unfinished record.\<close>

definition fail_unfinished :: "string \<Rightarrow> TestResult \<Rightarrow> TestResult" where
  "fail_unfinished text t = t\<lparr>tr_Status := StatusFail, tr_Output := tr_Output t @ [text]\<rparr>"

text \<open>The sweep at a package's terminal event: one iteration of the \<open>range\<close> over
  \<open>currentTestResults\<close>, on the pair of \<open>pkgResult\<close> and the map.\<close>

definition unfinished_text :: string where
  "unfinished_text = ''Test did not report completion before package finished.''"

fun sweep_step ::
  "string \<Rightarrow> PackageResult \<times> (string \<times> TestResult) list \<Rightarrow> string \<times> TestResult
     \<Rightarrow> PackageResult \<times> (string \<times> TestResult) list" where
  "sweep_step pkg (pkgResult, cur) (key, unfinishedTest) =
     (if tr_PackageName unfinishedTest = pkg then
        (let t = fail_unfinished unfinished_text unfinishedTest;
             pkg1 = pkgResult\<lparr>pr_Tests := pr_Tests pkgResult @ [t]\<rparr>
         in (if pr_Status pkg1 = StatusPass then pkg1\<lparr>pr_Status := StatusFail\<rparr> else pkg1,
             AList.delete key cur))
      else (pkgResult, cur))"

text \<open>The scan of the summary for the two markers: the loop stops at the first line
  that says there are no test files.\<close>

definition no_test_files_line :: "string \<Rightarrow> bool" where
  "no_test_files_line line \<longleftrightarrow>
     Contains line ''[no test files]'' \<or> Contains line ''no Go files''
       \<or> Contains line ''no non-test Go files''"

definition build_failed_line :: "string \<Rightarrow> bool" where
  "build_failed_line line \<longleftrightarrow>
     prefix ''# '' line \<or> Contains line (''FAIL'' @ [tab]) \<and> Contains line ''[build failed]''"

fun scan_summary :: "string list \<Rightarrow> bool \<Rightarrow> bool \<times> bool" where
  "scan_summary [] isBuildFailed = (False, isBuildFailed)"
| "scan_summary (line # rest) isBuildFailed =
     (if no_test_files_line line then (True, isBuildFailed)
      else scan_summary rest (isBuildFailed \<or> build_failed_line line))"

definition placeholder ::
  "PackageResult \<Rightarrow> string \<Rightarrow> string \<Rightarrow> TestStatus \<Rightarrow> PackageResult" where
  "placeholder pkgResult pkg name status =
     pkgResult\<lparr>pr_Tests := pr_Tests pkgResult @
                 [\<lparr>tr_PackageName = pkg, tr_Name = name, tr_Status = status,
                   tr_Output = pr_SummaryOutput pkgResult, tr_Duration = pr_Duration pkgResult\<rparr>],
               pr_SummaryOutput := []\<rparr>"

definition package_heuristics ::
  "PackageResult \<Rightarrow> string \<Rightarrow> TestStatus \<Rightarrow> PackageResult" where
  "package_heuristics pkgResult pkg status =
     (if (status = StatusFail \<or> status = StatusSkip \<or> status = StatusPass)
           \<and> pr_Tests pkgResult = [] \<and> pr_SummaryOutput pkgResult \<noteq> [] then
        (case scan_summary (pr_SummaryOutput pkgResult) False of
           (isNoTestFiles, isBuildFailed) \<Rightarrow>
             if isNoTestFiles then
               placeholder pkgResult pkg (''Package '' @ pkg @ '' Status'') StatusSkip
             else if isBuildFailed \<and> status = StatusFail then
               placeholder pkgResult pkg (''Package '' @ pkg @ '' Build Failed'') StatusFail
             else pkgResult)
      else pkgResult)"

definition on_package_done ::
  "RangeOrder \<Rightarrow> ParseState \<Rightarrow> TestEvent \<Rightarrow> PackageResult \<Rightarrow> TestStatus \<Rightarrow> ParseState" where
  "on_package_done ord st e pkgResult status =
     (let pkg1 = pkgResult\<lparr>pr_Status := status,
                  pr_Duration := elapsed_Duration (ev_Elapsed e)\<rparr>;
          (pkg2, cur) = foldl (sweep_step (ev_Package e)) (pkg1, currentTestResults st)
                          (visit ord (lineNumber st) (currentTestResults st))
      in (set_package st (ev_Package e) (package_heuristics pkg2 (ev_Package e) status))\<lparr>currentTestResults := cur\<rparr>)"

definition on_event :: "RangeOrder \<Rightarrow> ParseState \<Rightarrow> TestEvent \<Rightarrow> PackageResult \<Rightarrow> ParseState" where
  "on_event ord st e pkgResult =
     (if ev_Action e = ''run'' then on_run st e pkgResult
      else if ev_Action e = ''output'' then on_output st e pkgResult
      else case terminal_status (ev_Action e) of
             Some status \<Rightarrow>
               if ev_Test e \<noteq> [] then on_test_done st e pkgResult status
               else on_package_done ord st e pkgResult status
           | None \<Rightarrow> st)"

text \<open>One pass of the scanner loop: the line counter goes up first.\<close>

fun parse_line :: "RangeOrder \<Rightarrow> ParseState \<Rightarrow> JsonLine \<Rightarrow> ParseState" where
  "parse_line ord st EmptyLine = st\<lparr>lineNumber := Suc (lineNumber st)\<rparr>"
| "parse_line ord st (Malformed raw) = on_malformed (st\<lparr>lineNumber := Suc (lineNumber st)\<rparr>) raw"
| "parse_line ord st (Decoded event) =
     (case ensure_package (st\<lparr>lineNumber := Suc (lineNumber st)\<rparr>) event of
        None \<Rightarrow> st\<lparr>lineNumber := Suc (lineNumber st)\<rparr>
      | Some (st1, e, pkgResult) \<Rightarrow> on_event ord st1 e pkgResult)"

definition parse_lines :: "RangeOrder \<Rightarrow> ParseState \<Rightarrow> JsonLine list \<Rightarrow> ParseState" where
  "parse_lines ord st ls = foldl (parse_line ord) st ls"

section \<open>After the loop\<close>

text \<open>The tests that were run and never finished: one iteration of the \<open>range\<close>, on
  the package map.\<close>

definition incomplete_text :: string where
  "incomplete_text =
     ''Test did not complete (process might have crashed, timed out, or was terminated).''"

fun final_step ::
  "(string \<rightharpoonup> PackageResult) \<Rightarrow> string \<times> TestResult \<Rightarrow> (string \<rightharpoonup> PackageResult)" where
  "final_step pkgs (key, tr) =
     (if tr_Status tr = StatusRunning then
        (let t = fail_unfinished incomplete_text tr in
         case pkgs (tr_PackageName tr) of
           Some pkgResult \<Rightarrow>
             pkgs(tr_PackageName tr \<mapsto>
               pkgResult\<lparr>pr_Tests := pr_Tests pkgResult @ [t],
                 pr_Status := (if pr_Status pkgResult \<noteq> StatusFail then StatusFail
                               else pr_Status pkgResult)\<rparr>)
         | None \<Rightarrow> pkgs)
      else pkgs)"

definition final_sweep :: "RangeOrder \<Rightarrow> ParseState \<Rightarrow> (string \<rightharpoonup> PackageResult)" where
  "final_sweep ord st =
     foldl final_step (packageResults st) (visit ord 0 (currentTestResults st))"

text \<open>
  \<open>sort.Slice\<close> with \<open>Tests[i].Name < Tests[j].Name\<close> returns the tests sorted by
  name. Which of two tests of the same name comes first is not fixed: the sort is not
  stable. A \<open>Sorter\<close> is any function that rearranges a list of tests into one sorted by
  name, and \<open>sort_Slice srt ts\<close> is what the sorting function \<open>srt\<close> makes of \<open>ts\<close>.
\<close>

typedef Sorter =
  "{f :: TestResult list \<Rightarrow> TestResult list.
      \<forall>ts. mset (f ts) = mset ts \<and> sorted (map tr_Name (f ts))}"
  by (rule exI [of _ "sort_key tr_Name"]) simp

setup_lifting type_definition_Sorter

lift_definition sort_Slice :: "Sorter \<Rightarrow> TestResult list \<Rightarrow> TestResult list"
  is "\<lambda>f. f" .

text \<open>One sorting function: insertion sort, which \<open>sort.Slice\<close> runs on slices of at most
  twelve elements.\<close>

lift_definition insertion_sort :: Sorter is "sort_key tr_Name"
  by simp

fun assemble ::
  "Sorter \<Rightarrow> (string \<rightharpoonup> PackageResult) \<Rightarrow> string list \<Rightarrow> PackageResult list" where
  "assemble srt pkgs [] = []"
| "assemble srt pkgs (pkgName # names) =
     (case pkgs pkgName of
        Some pkg \<Rightarrow> pkg\<lparr>pr_Tests := sort_Slice srt (pr_Tests pkg)\<rparr> # assemble srt pkgs names
      | None \<Rightarrow> assemble srt pkgs names)"

text \<open>\<open>Parse\<close>: \<open>Inl\<close> is the error return, \<open>Inr\<close> the list of package results.\<close>

definition Parse :: "Sorter \<Rightarrow> RangeOrder \<Rightarrow> Scanned \<Rightarrow> string + PackageResult list" where
  "Parse srt ord input =
     (let st = parse_lines ord initial_state (Lines input) in
      case ScanErr input of
        Some err \<Rightarrow> Inl (''error reading test output stream: '' @ err)
      | None \<Rightarrow> Inr (assemble srt (final_sweep ord st) (orderedPackageNames st)))"

section \<open>The runner: \<open>ExecuteTestsCmd\<close>\<close>

text \<open>\<open>TestTargetType\<close> is an integer type with three named values; any other integer
  reaches the \<open>default\<close> branch.\<close>

datatype TestTargetType = SingleTest | PackageTests | AllTests | OtherTarget int

record TestRunConfig =
  cfg_Type :: TestTargetType
  cfg_PackagePath :: string
  cfg_TestName :: string
  cfg_WorkingDir :: string

text \<open>The messages the goroutine sends on \<open>msgChan\<close>; \<open>TestRunCompleteMsg\<close> carries
  \<open>Err\<close>, \<open>None\<close> for \<open>nil\<close>.\<close>

datatype Msg = TestOutputLineMsg string | TestRunCompleteMsg "string option"

text \<open>
  What the operating system does with the command is outside the program: for the
  arguments and the directory, either a pipe cannot be created, or the command cannot
  be started, or it runs, writes its lines on stdout and exits with the result of
  \<open>cmd.Wait()\<close>. Lines on stderr are logged only.
\<close>

datatype ProcessOutcome =
  StdoutPipeError string
| StderrPipeError string
| StartError string
| Exited "string list" "string option"

type_synonym OS = "string list \<Rightarrow> string \<Rightarrow> ProcessOutcome"

text \<open>The run of the goroutine: the command \<open>cmd.Start()\<close> was called on, if it got
  that far, and the messages sent, in order.\<close>

record Run =
  Spawned :: "(string list \<times> string) option"
  Messages :: "Msg list"

fun Join :: "string list \<Rightarrow> string \<Rightarrow> string" where
  "Join [] sep = []"
| "Join [a] sep = a"
| "Join (a # b # rest) sep = a @ sep @ Join (b # rest) sep"

definition baseArgs :: "string list" where
  "baseArgs = [''test'', ''-json'', ''-v'', ''-count=1'']"

definition config_error :: "string \<Rightarrow> Run" where
  "config_error err = \<lparr>Spawned = None, Messages = [TestRunCompleteMsg (Some err)]\<rparr>"

definition quote :: char where
  "quote = CHR 0x27"

definition launch :: "OS \<Rightarrow> TestRunConfig \<Rightarrow> string list \<Rightarrow> Run" where
  "launch os config finalArgs =
     (let dir = (if cfg_WorkingDir config \<noteq> [] then cfg_WorkingDir config else ''.'') in
      case os finalArgs dir of
        StdoutPipeError err \<Rightarrow>
          \<lparr>Spawned = None, Messages = [TestRunCompleteMsg (Some (''stdout pipe: '' @ err))]\<rparr>
      | StderrPipeError err \<Rightarrow>
          \<lparr>Spawned = None, Messages = [TestRunCompleteMsg (Some (''stderr pipe: '' @ err))]\<rparr>
      | StartError err \<Rightarrow>
          \<lparr>Spawned = Some (finalArgs, dir),
           Messages = [TestRunCompleteMsg
             (Some (''start command '' @ [quote] @ ''go '' @ Join finalArgs '' '' @ [quote]
                    @ '': '' @ err))]\<rparr>
      | Exited stdout waitErr \<Rightarrow>
          \<lparr>Spawned = Some (finalArgs, dir),
           Messages = map TestOutputLineMsg stdout @ [TestRunCompleteMsg waitErr]\<rparr>)"

definition ExecuteTestsCmd :: "OS \<Rightarrow> TestRunConfig \<Rightarrow> Run" where
  "ExecuteTestsCmd os config =
     (case cfg_Type config of
        SingleTest \<Rightarrow>
          if cfg_PackagePath config = [] \<or> cfg_TestName config = [] then
            config_error ''ExecuteTestsCmd: SingleTest requires a valid PackagePath and TestName''
          else launch os config
                 (baseArgs @ [cfg_PackagePath config, ''-run'', ''^'' @ cfg_TestName config @ ''$''])
      | PackageTests \<Rightarrow>
          if cfg_PackagePath config = [] then
            config_error ''ExecuteTestsCmd: PackageTests requires a valid PackagePath''
          else launch os config (baseArgs @ [cfg_PackagePath config])
      | AllTests \<Rightarrow> launch os config (baseArgs @ [''./...''])
      | OtherTarget n \<Rightarrow>
          config_error (''ExecuteTestsCmd: unknown test target type: '' @ int_to_string n))"

section \<open>The consumer: \<open>TestOutputLineMsg\<close> and \<open>TestRunCompleteMsg\<close> in \<open>Update\<close>\<close>

text \<open>Each line message is written to \<open>accumulatedJSONOutput\<close> with a newline.\<close>

definition accumulate :: "string \<Rightarrow> string \<Rightarrow> string" where
  "accumulate accumulatedJSONOutput line = accumulatedJSONOutput @ line @ [newline]"

definition limitString :: "string \<Rightarrow> int \<Rightarrow> string" where
  "limitString s limit =
     (if int (length s) \<le> limit then s
      else if limit < 3 then (if limit < 0 then [] else take (nat limit) s)
      else take (nat (limit - 3)) s @ ''...'')"

text \<open>
  \<open>updateOnTestsComplete\<close> (the same code stands in \<open>Update\<close>): the list of package
  results that goes into \<open>displayReportMsg\<close>. The scanner and the JSON decoder, which
  turn the accumulated bytes into scanned lines, are the parameter \<open>decode\<close>; \<open>srt\<close> and
  \<open>ord\<close> are the sorting function and the order of map iteration \<open>Parse\<close> runs with.
\<close>

definition execution_error_report :: "string \<Rightarrow> PackageResult list" where
  "execution_error_report err =
     [\<lparr>pr_PackageName = ''Test Execution Error'', pr_Status = StatusFail,
       pr_SummaryOutput =
         [''Execution failed to produce JSON output.'',
          ''Error from `go test`: '' @ err,
          ''Check GDD log for `go test stderr` details.''],
       pr_Tests =
         [\<lparr>tr_PackageName = ''Test Execution Error'', tr_Name = ''Overall Execution'',
           tr_Status = StatusFail, tr_Output = [''Command `go test` failed: '' @ err],
           tr_Duration = 0\<rparr>],
       pr_Duration = 0\<rparr>]"

definition parse_error_report :: "string \<Rightarrow> string \<Rightarrow> PackageResult list" where
  "parse_error_report parseErr accumulatedJSONOutput =
     [\<lparr>pr_PackageName = ''JSON Parsing Error'', pr_Status = StatusFail,
       pr_SummaryOutput =
         [''Failed to parse `go test -json` output.'',
          ''Error: '' @ parseErr,
          ''Raw output (first 1KB):'',
          limitString accumulatedJSONOutput 1024],
       pr_Tests = [], pr_Duration = 0\<rparr>]"

definition updateOnTestsComplete ::
  "(string \<Rightarrow> Scanned) \<Rightarrow> Sorter \<Rightarrow> RangeOrder \<Rightarrow> string \<Rightarrow> string option
     \<Rightarrow> PackageResult list" where
  "updateOnTestsComplete decode srt ord accumulatedJSONOutput msgErr =
     (case msgErr of
        Some err \<Rightarrow>
          if length accumulatedJSONOutput = 0 then execution_error_report err
          else (case Parse srt ord (decode accumulatedJSONOutput) of
                  Inr parsedData \<Rightarrow> parsedData
                | Inl parseErr \<Rightarrow> parse_error_report parseErr accumulatedJSONOutput)
      | None \<Rightarrow>
          (case Parse srt ord (decode accumulatedJSONOutput) of
             Inr parsedData \<Rightarrow> parsedData
           | Inl parseErr \<Rightarrow> parse_error_report parseErr accumulatedJSONOutput))"

section \<open>Notions the properties are stated with\<close>

text \<open>
  The order in which packages are first seen in a stream. An event names a package
  when its package field is not empty; an event with no package, no test and action
  \<open>output\<close> counts for the orphaned package; any other event with no package is
  skipped and names none.
\<close>

definition named_package :: "TestEvent \<Rightarrow> string option" where
  "named_package e =
     (if ev_Package e \<noteq> [] then Some (ev_Package e)
      else if ev_Test e = [] \<and> ev_Action e = ''output'' then Some orphanedOutputPackage
      else None)"

fun seen_packages :: "JsonLine list \<Rightarrow> string list" where
  "seen_packages [] = []"
| "seen_packages (Decoded e # ls) =
     (case named_package e of Some p \<Rightarrow> p # seen_packages ls | None \<Rightarrow> seen_packages ls)"
| "seen_packages (EmptyLine # ls) = seen_packages ls"
| "seen_packages (Malformed raw # ls) = seen_packages ls"

fun first_seen_order :: "string list \<Rightarrow> string list" where
  "first_seen_order [] = []"
| "first_seen_order (p # ps) = p # removeAll p (first_seen_order ps)"

text \<open>The three terminal actions.\<close>

definition terminal :: "TestEvent \<Rightarrow> bool" where
  "terminal e \<longleftrightarrow> ev_Action e = ''pass'' \<or> ev_Action e = ''fail'' \<or> ev_Action e = ''skip''"

text \<open>An event with no package, no test and action \<open>output\<close>.\<close>

definition orphaned_output :: "TestEvent \<Rightarrow> bool" where
  "orphaned_output e \<longleftrightarrow> ev_Package e = [] \<and> ev_Test e = [] \<and> ev_Action e = ''output''"

text \<open>
  A line that leaves the test \<open>T\<close> of package \<open>P\<close> in flight: it is not a terminal
  event of that test or of the package \<open>P\<close> itself, and not the \<open>run\<close> event of a
  test of another package that is tracked under the same key \<open>P/T\<close>.
\<close>

definition leaves_in_flight :: "string \<Rightarrow> string \<Rightarrow> JsonLine \<Rightarrow> bool" where
  "leaves_in_flight P T l =
     (case l of
        Decoded e \<Rightarrow>
          \<not> (terminal e \<and> ev_Test e = [] \<and> ev_Package e = P)
          \<and> \<not> (terminal e \<and> ev_Test e \<noteq> [] \<and> ev_Package e @ ''/'' @ ev_Test e = P @ ''/'' @ T)
          \<and> \<not> (ev_Action e = ''run'' \<and> ev_Test e \<noteq> [] \<and> ev_Package e \<noteq> P
               \<and> ev_Package e @ ''/'' @ ev_Test e = P @ ''/'' @ T)
      | _ \<Rightarrow> True)"

text \<open>The tests of package \<open>P\<close> that are in flight in a state.\<close>

definition in_flight :: "ParseState \<Rightarrow> string \<Rightarrow> TestResult list" where
  "in_flight st P = filter (\<lambda>t. tr_PackageName t = P) (map snd (currentTestResults st))"

text \<open>The package result of name \<open>P\<close> in the list \<open>Parse\<close> returns.\<close>

definition result_of :: "PackageResult list \<Rightarrow> string \<Rightarrow> PackageResult option" where
  "result_of result P = find (\<lambda>pkg. pr_PackageName pkg = P) result"



section \<open>Invariants of the loop\<close>

text \<open>The in-flight map: keys are distinct, every record sits under the key made of
  its package and name, is running and has no duration yet, and its package is known.\<close>

definition tracked_ok :: "ParseState \<Rightarrow> bool" where
  "tracked_ok st \<longleftrightarrow>
     distinct (map fst (currentTestResults st))
     \<and> (\<forall>k t. (k, t) \<in> set (currentTestResults st) \<longrightarrow>
           k = tr_PackageName t @ ''/'' @ tr_Name t \<and> tr_Status t = StatusRunning
           \<and> tr_Duration t = 0 \<and> tr_PackageName t \<in> dom (packageResults st))"

text \<open>The package map and the list of names hold the same names, once each; the empty
  name is not among them; every record is stored under its own name.\<close>

definition packages_ok :: "ParseState \<Rightarrow> bool" where
  "packages_ok st \<longleftrightarrow>
     dom (packageResults st) = set (orderedPackageNames st)
     \<and> distinct (orderedPackageNames st)
     \<and> [] \<notin> dom (packageResults st)
     \<and> (\<forall>p pkg. packageResults st p = Some pkg \<longrightarrow> pr_PackageName pkg = p)"



text \<open>The orphaned package, when nothing but orphaned output has reached it: status
  \<open>UNKNOWN\<close>, no tests, and no test in flight under its name.\<close>

definition orphan_untouched :: "ParseState \<Rightarrow> bool" where
  "orphan_untouched st \<longleftrightarrow>
     (\<forall>pkg. packageResults st orphanedOutputPackage = Some pkg \<longrightarrow>
        pr_Status pkg = StatusUnknown \<and> pr_Tests pkg = [])
     \<and> in_flight st orphanedOutputPackage = []"

section \<open>Writing streams down\<close>

text \<open>A decoded event from its fields, and the input of \<open>Parse\<close> when the scanner
  reports no error.\<close>

definition event :: "string \<Rightarrow> string \<Rightarrow> string \<Rightarrow> Float64 \<Rightarrow> string \<Rightarrow> JsonLine" where
  "event action pkg test elapsed output =
     Decoded \<lparr>ev_Action = action, ev_Package = pkg, ev_Test = test, ev_Elapsed = elapsed,
              ev_Output = output\<rparr>"

definition stream :: "JsonLine list \<Rightarrow> Scanned" where
  "stream ls = \<lparr>Lines = ls, ScanErr = None\<rparr>"

section \<open>Basic facts\<close>

subsection \<open>The conversion of elapsed times\<close>

lemma excess_bits_small: "n < 2 ^ 53 \<Longrightarrow> excess_bits n = 0"
  by (simp add: excess_bits.simps)

lemma elapsed_Duration_seconds:
  assumes "\<bar>m\<bar> \<le> 9000000"
  shows "elapsed_Duration (Float64 m 0) = m * 1000000000"
proof -
  have "nat \<bar>m * 1000000000\<bar> < 2 ^ 53"
    using assms by (simp add: abs_mult)
  then have "times_Second (Float64 m 0) = Float64 (m * 1000000000) 0"
    by (simp add: times_Second_def Let_def excess_bits_small round_half_even_def
        mult_sgn_abs del: abs_mult)
  moreover have "- 9223372036854775808 \<le> m * 1000000000" "m * 1000000000 < 9223372036854775808"
    using assms by linarith+
  ultimately show ?thesis
    by (simp add: elapsed_Duration_def to_Duration_def integer_part_def del: mult_less_cancel_right
        mult_le_cancel_right)
qed




lemma mset_visit [simp]: "mset (visit ord n xs) = mset xs"
  by transfer simp

lemma set_visit [simp]: "set (visit ord n xs) = set xs"
  by (metis mset_visit set_mset_mset)

lemma visit_Nil [simp]: "visit ord n [] = []"
  using mset_visit [of ord n "[]"] by (simp del: mset_visit)

lemma visit_single [simp]: "visit ord n [x] = [x]"
  using mset_visit [of ord n "[x]"] by (simp del: mset_visit)

lemma visit_insertion_order [simp]: "visit insertion_order n xs = xs"
  by transfer simp

lemma visit_reverse_order [simp]: "visit reverse_order n xs = rev xs"
  by transfer simp

lemma mset_sort_Slice [simp]: "mset (sort_Slice srt ts) = mset ts"
  by transfer simp

lemma set_sort_Slice [simp]: "set (sort_Slice srt ts) = set ts"
  by (metis mset_sort_Slice set_mset_mset)

lemma sorted_sort_Slice: "sorted (map tr_Name (sort_Slice srt ts))"
  by transfer simp

lemma sort_Slice_Nil [simp]: "sort_Slice srt [] = []"
  using mset_sort_Slice [of srt "[]"] by (simp del: mset_sort_Slice)

lemma sort_Slice_single [simp]: "sort_Slice srt [t] = [t]"
  using mset_sort_Slice [of srt "[t]"] by (simp del: mset_sort_Slice)

lemma sort_Slice_insertion_sort: "sort_Slice insertion_sort ts = sort_key tr_Name ts"
  by transfer simp

lemmas parse_defs =
  Parse_def parse_lines_def initial_state_def ensure_package_def add_package_def new_package_def
  on_event_def on_run_def on_output_def on_test_done_def on_package_done_def on_malformed_def
  set_package_def testKey_def terminal_status_def package_heuristics_def placeholder_def
  final_sweep_def orphanedOutputPackage_def malformed_text_def
  TrimRightNewline_def newline_def no_test_files_line_def build_failed_line_def Let_def
  fail_unfinished_def elapsed_Duration_seconds sort_Slice_insertion_sort

lemma containsString_iff [simp]: "containsString slice str \<longleftrightarrow> str \<in> set slice"
  by (induction slice) auto

lemma delete_as_filter: "AList.delete k al = filter (\<lambda>kv. fst kv \<noteq> k) al"
  by (induction al) auto

lemma sweep_fold:
  "foldl (sweep_step P) (pkg, cur) es =
     (pkg\<lparr>pr_Tests := pr_Tests pkg @ map (fail_unfinished unfinished_text)
                          (filter (\<lambda>t. tr_PackageName t = P) (map snd es)),
          pr_Status := (if filter (\<lambda>t. tr_PackageName t = P) (map snd es) \<noteq> []
                           \<and> pr_Status pkg = StatusPass
                        then StatusFail else pr_Status pkg)\<rparr>,
      filter (\<lambda>kv. fst kv \<notin> fst ` {kv \<in> set es. tr_PackageName (snd kv) = P}) cur)"
proof (induction es arbitrary: pkg cur)
  case Nil
  show ?case by simp
next
  case (Cons a es)
  obtain k t where a: "a = (k, t)" by (cases a)
  show ?case
  proof (cases "tr_PackageName t = P")
    case True
    have "{kv \<in> set (a # es). tr_PackageName (snd kv) = P}
          = insert a {kv \<in> set es. tr_PackageName (snd kv) = P}"
      using True a by auto
    then have f: "filter (\<lambda>kv. fst kv \<notin> fst ` {kv \<in> set es. tr_PackageName (snd kv) = P})
               (filter (\<lambda>kv. fst kv \<noteq> k) cur)
             = filter (\<lambda>kv. fst kv \<notin> fst ` {kv \<in> set (a # es). tr_PackageName (snd kv) = P}) cur"
      using a by (auto intro!: filter_cong)
    show ?thesis
      using True a f by (simp add: Cons.IH Let_def delete_as_filter)
  next
    case False
    have f: "{kv \<in> set (a # es). tr_PackageName (snd kv) = P}
             = {kv \<in> set es. tr_PackageName (snd kv) = P}"
      using False a by auto
    have g: "filter (\<lambda>t. tr_PackageName t = P) (map snd (a # es))
             = filter (\<lambda>t. tr_PackageName t = P) (map snd es)"
      using False a by simp
    have step: "sweep_step P (pkg, cur) a = (pkg, cur)"
      using False a by simp
    show ?thesis
      by (simp only: foldl_Cons step Cons.IH f g)
  qed
qed

lemma final_fold:
  "foldl final_step pkgs es p =
     (case pkgs p of
        None \<Rightarrow> None
      | Some pkg \<Rightarrow>
          Some (if filter (\<lambda>t. tr_PackageName t = p \<and> tr_Status t = StatusRunning) (map snd es) = []
                then pkg
                else pkg\<lparr>pr_Tests := pr_Tests pkg @ map (fail_unfinished incomplete_text)
                       (filter (\<lambda>t. tr_PackageName t = p \<and> tr_Status t = StatusRunning) (map snd es)),
                     pr_Status := StatusFail\<rparr>))"
proof (induction es arbitrary: pkgs)
  case Nil
  show ?case by (simp split: option.splits)
next
  case (Cons a es)
  obtain k t where a: "a = (k, t)" by (cases a)
  show ?case
    using a by (auto simp: Cons.IH Let_def split: option.splits)
qed


lemma on_package_done_eq:
  "on_package_done ord st e pkg status =
     (set_package st (ev_Package e)
        (package_heuristics
           (pkg\<lparr>pr_Duration := elapsed_Duration (ev_Elapsed e),
                 pr_Tests := pr_Tests pkg @ map (fail_unfinished unfinished_text)
                    (filter (\<lambda>t. tr_PackageName t = ev_Package e)
                       (map snd (visit ord (lineNumber st) (currentTestResults st)))),
                 pr_Status := (if in_flight st (ev_Package e) \<noteq> [] \<and> status = StatusPass
                               then StatusFail else status)\<rparr>)
           (ev_Package e) status))
     \<lparr>currentTestResults :=
        filter (\<lambda>kv. fst kv \<notin> fst ` {kv \<in> set (currentTestResults st).
                                        tr_PackageName (snd kv) = ev_Package e})
          (currentTestResults st)\<rparr>"
proof -
  have "filter (\<lambda>t. tr_PackageName t = ev_Package e)
          (map snd (visit ord (lineNumber st) (currentTestResults st))) \<noteq> []
        \<longleftrightarrow> in_flight st (ev_Package e) \<noteq> []"
    by (auto simp: in_flight_def filter_empty_conv)
  then show ?thesis
    by (simp add: on_package_done_def sweep_fold Let_def)
qed






lemma package_heuristics_fields [simp]:
  "pr_Status (package_heuristics pkg P status) = pr_Status pkg"
  "pr_Duration (package_heuristics pkg P status) = pr_Duration pkg"
  "pr_PackageName (package_heuristics pkg P status) = pr_PackageName pkg"
  by (auto simp: package_heuristics_def placeholder_def split: if_splits prod.splits)



lemmas handler_defs =
  on_event_def on_run_def on_output_def on_test_done_def on_package_done_eq set_package_def Let_def

lemma on_event_frame [simp]:
  "orderedPackageNames (on_event ord st e pkg) = orderedPackageNames st"
  "lineNumber (on_event ord st e pkg) = lineNumber st"
  by (auto simp: handler_defs split: option.splits prod.splits)

lemma on_event_other:
  "q \<noteq> ev_Package e \<Longrightarrow> packageResults (on_event ord st e pkg) q = packageResults st q"
  by (auto simp: handler_defs split: option.splits prod.splits)

lemma on_event_dom:
  "packageResults st (ev_Package e) = Some pkg \<Longrightarrow>
     dom (packageResults (on_event ord st e pkg)) = dom (packageResults st)"
  by (auto simp: handler_defs split: option.splits prod.splits if_splits)

lemma on_event_name:
  "packageResults (on_event ord st e pkg) (ev_Package e) = Some pkg' \<Longrightarrow>
     packageResults st (ev_Package e) = Some pkg \<Longrightarrow>
     pr_PackageName pkg' = pr_PackageName pkg"
  by (auto simp: handler_defs split: option.splits prod.splits if_splits)

lemma ensure_package_cases:
  assumes "ensure_package st e = Some (st1, e1, pkg)"
  obtains
    (existing) "st1 = st" "e1 = e" "packageResults st (ev_Package e) = Some pkg"
  | (fresh) "packageResults st (ev_Package e) = None"
      "e1 = e \<or> orphaned_output e \<and> e1 = e\<lparr>ev_Package := orphanedOutputPackage\<rparr>"
      "ev_Package e1 \<noteq> []" "named_package e = Some (ev_Package e1)"
      "pkg = new_package (ev_Package e1)"
      "st1 = st\<lparr>packageResults := (packageResults st)(ev_Package e1 \<mapsto> pkg),
                 orderedPackageNames :=
                   (if ev_Package e1 \<in> set (orderedPackageNames st) then orderedPackageNames st
                    else orderedPackageNames st @ [ev_Package e1])\<rparr>"
  using assms
  by (auto simp: ensure_package_def add_package_def orphaned_output_def named_package_def
      orphanedOutputPackage_def split: option.splits if_splits)

lemma ensure_package_None:
  "ensure_package st e = None \<Longrightarrow> named_package e = None"
  by (auto simp: ensure_package_def named_package_def split: option.splits if_splits)

lemma ensure_package_lookup:
  "ensure_package st e = Some (st1, e1, pkg) \<Longrightarrow> packageResults st1 (ev_Package e1) = Some pkg"
  by (erule ensure_package_cases) auto

lemma ensure_package_event:
  assumes "ensure_package st e = Some (st1, e1, pkg)"
  shows "ev_Test e1 = ev_Test e" "ev_Action e1 = ev_Action e" "ev_Elapsed e1 = ev_Elapsed e"
    "ev_Output e1 = ev_Output e"
  using assms by (auto elim!: ensure_package_cases)

lemma ensure_package_frame:
  assumes "ensure_package st e = Some (st1, e1, pkg)"
  shows "currentTestResults st1 = currentTestResults st" "lineNumber st1 = lineNumber st"
  using assms by (auto elim!: ensure_package_cases)

lemma on_malformed_frame [simp]:
  "orderedPackageNames (on_malformed st raw) = orderedPackageNames st"
  "lineNumber (on_malformed st raw) = lineNumber st"
  "currentTestResults (on_malformed st raw) = currentTestResults st"
  "dom (packageResults (on_malformed st raw)) = dom (packageResults st)"
  by (auto simp: on_malformed_def Let_def split: option.splits)

lemma on_malformed_lookup:
  "packageResults (on_malformed st raw) p = Some pkg' \<Longrightarrow>
     \<exists>pkg. packageResults st p = Some pkg \<and> pr_Tests pkg' = pr_Tests pkg
       \<and> pr_Status pkg' = pr_Status pkg \<and> pr_Duration pkg' = pr_Duration pkg
       \<and> pr_PackageName pkg' = pr_PackageName pkg"
  by (auto simp: on_malformed_def Let_def split: option.splits if_splits)




lemma final_sweep_lookup:
  "final_sweep ord st p =
     (case packageResults st p of
        None \<Rightarrow> None
      | Some pkg \<Rightarrow>
          Some (if filter (\<lambda>t. tr_PackageName t = p \<and> tr_Status t = StatusRunning)
                     (map snd (visit ord 0 (currentTestResults st))) = []
                then pkg
                else pkg\<lparr>pr_Tests := pr_Tests pkg @ map (fail_unfinished incomplete_text)
                       (filter (\<lambda>t. tr_PackageName t = p \<and> tr_Status t = StatusRunning)
                          (map snd (visit ord 0 (currentTestResults st)))),
                     pr_Status := StatusFail\<rparr>))"
  by (simp add: final_sweep_def final_fold)


lemma assemble_member:
  "pkg \<in> set (assemble srt pkgs names) \<Longrightarrow>
     \<exists>p pkg0. p \<in> set names \<and> pkgs p = Some pkg0
        \<and> pkg = pkg0\<lparr>pr_Tests := sort_Slice srt (pr_Tests pkg0)\<rparr>"
  by (induction names) (auto split: option.splits)

subsection \<open>The package map and the list of names\<close>

lemma packages_ok_name:
  "packages_ok st \<Longrightarrow> packageResults st p = Some pkg \<Longrightarrow> pr_PackageName pkg = p"
  unfolding packages_ok_def by blast

lemma packages_ok_dom:
  "packages_ok st \<Longrightarrow> dom (packageResults st) = set (orderedPackageNames st)"
  unfolding packages_ok_def by blast

lemma packages_ok_distinct:
  "packages_ok st \<Longrightarrow> distinct (orderedPackageNames st)"
  unfolding packages_ok_def by blast

lemma packages_ok_nonempty:
  "packages_ok st \<Longrightarrow> packageResults st [] = None"
  unfolding packages_ok_def by blast

lemma packages_okI:
  "dom (packageResults st) = set (orderedPackageNames st) \<Longrightarrow>
   distinct (orderedPackageNames st) \<Longrightarrow> packageResults st [] = None \<Longrightarrow>
   (\<And>p pkg. packageResults st p = Some pkg \<Longrightarrow> pr_PackageName pkg = p) \<Longrightarrow>
   packages_ok st"
  unfolding packages_ok_def by blast

lemma packages_ok_parse_line:
  assumes "packages_ok st"
  shows "packages_ok (parse_line ord st l)"
proof (cases l)
  case EmptyLine
  show ?thesis
    unfolding EmptyLine
    using packages_ok_dom [OF assms] packages_ok_distinct [OF assms]
      packages_ok_nonempty [OF assms] packages_ok_name [OF assms]
    by (intro packages_okI) simp_all
next
  case (Malformed raw)
  let ?st0 = "st\<lparr>lineNumber := Suc (lineNumber st)\<rparr>"
  have "pr_PackageName pkg' = p" if "packageResults (on_malformed ?st0 raw) p = Some pkg'"
    for p pkg'
  proof -
    from on_malformed_lookup [OF that] obtain pkg
      where "packageResults st p = Some pkg" "pr_PackageName pkg' = pr_PackageName pkg"
      by auto
    then show ?thesis using packages_ok_name [OF assms] by simp
  qed
  moreover have "dom (packageResults (on_malformed ?st0 raw)) = set (orderedPackageNames st)"
    using packages_ok_dom [OF assms] by simp
  moreover have "packageResults (on_malformed ?st0 raw) [] = None"
  proof -
    have "[] \<notin> dom (packageResults ?st0)"
      using packages_ok_nonempty [OF assms] by auto
    then have "[] \<notin> dom (packageResults (on_malformed ?st0 raw))"
      by simp
    then show ?thesis by blast
  qed
  ultimately show ?thesis
    unfolding Malformed using packages_ok_distinct [OF assms]
    by (intro packages_okI) simp_all
next
  case (Decoded e)
  let ?st0 = "st\<lparr>lineNumber := Suc (lineNumber st)\<rparr>"
  have ok0: "packages_ok ?st0"
    using packages_ok_dom [OF assms] packages_ok_distinct [OF assms]
      packages_ok_nonempty [OF assms] packages_ok_name [OF assms]
    by (intro packages_okI) simp_all
  show ?thesis
  proof (cases "ensure_package ?st0 e")
    case None
    then show ?thesis using ok0 Decoded by simp
  next
    case (Some r)
    obtain st1 e1 pkg where r: "r = (st1, e1, pkg)" by (cases r)
    note ens = Some [unfolded r]
    have look: "packageResults st1 (ev_Package e1) = Some pkg"
      using ens by (rule ensure_package_lookup)
    have ok1: "packages_ok st1"
      using ens
    proof (cases rule: ensure_package_cases)
      case existing
      then show ?thesis using ok0 by simp
    next
      case fresh
      have "dom (packageResults st1) = set (orderedPackageNames st1)"
        using packages_ok_dom [OF ok0] fresh(6) by auto
      moreover have "distinct (orderedPackageNames st1)"
        using packages_ok_distinct [OF ok0] fresh(6) by auto
      moreover have "packageResults st1 [] = None"
        using packages_ok_nonempty [OF ok0] fresh(3,6) by auto
      moreover have "pr_PackageName q = p" if "packageResults st1 p = Some q" for p q
        using that packages_ok_name [OF ok0, of p q] fresh(5,6)
        by (auto simp: new_package_def split: if_splits)
      ultimately show ?thesis by (rule packages_okI)
    qed
    have "packages_ok (on_event ord st1 e1 pkg)"
    proof (rule packages_okI)
      show "dom (packageResults (on_event ord st1 e1 pkg)) = set (orderedPackageNames (on_event ord st1 e1 pkg))"
        using packages_ok_dom [OF ok1] look by (simp add: on_event_dom)
      show "distinct (orderedPackageNames (on_event ord st1 e1 pkg))"
        using packages_ok_distinct [OF ok1] by simp
      have "[] \<notin> dom (packageResults st1)"
        using packages_ok_nonempty [OF ok1] by auto
      then have "[] \<notin> dom (packageResults (on_event ord st1 e1 pkg))"
        using look by (simp add: on_event_dom)
      then show "packageResults (on_event ord st1 e1 pkg) [] = None" by blast
    next
      fix p pkg'
      assume a: "packageResults (on_event ord st1 e1 pkg) p = Some pkg'"
      show "pr_PackageName pkg' = p"
      proof (cases "p = ev_Package e1")
        case True
        have "pr_PackageName pkg' = pr_PackageName pkg"
          using a look unfolding True by (rule on_event_name)
        moreover have "pr_PackageName pkg = ev_Package e1"
          using ok1 look by (rule packages_ok_name)
        ultimately show ?thesis using True by simp
      next
        case False
        then have "packageResults st1 p = Some pkg'"
          using a by (simp add: on_event_other)
        then show ?thesis using ok1 by (simp add: packages_ok_name)
      qed
    qed
    then show ?thesis using Decoded Some r by simp
  qed
qed

lemma packages_ok_parse_lines:
  "packages_ok st \<Longrightarrow> packages_ok (parse_lines ord st ls)"
  unfolding parse_lines_def
  by (induction ls arbitrary: st) (auto intro: packages_ok_parse_line)

lemma packages_ok_initial: "packages_ok initial_state"
  by (rule packages_okI) (simp_all add: initial_state_def)

subsection \<open>The in-flight map\<close>

lemma update_member:
  "(k, t) \<in> set (AList.update k' v al) \<Longrightarrow> (k, t) = (k', v) \<or> (k, t) \<in> set al"
  by (induction al) (auto split: if_splits)

lemma on_event_tracked:
  assumes "(k, t) \<in> set (currentTestResults (on_event ord st e pkg))"
  shows "(\<exists>t0. (k, t0) \<in> set (currentTestResults st)
            \<and> tr_PackageName t = tr_PackageName t0 \<and> tr_Name t = tr_Name t0
            \<and> tr_Status t = tr_Status t0 \<and> tr_Duration t = tr_Duration t0)
         \<or> (ev_Action e = ''run'' \<and> ev_Test e \<noteq> [] \<and> k = ev_Package e @ ''/'' @ ev_Test e
            \<and> t = \<lparr>tr_PackageName = ev_Package e, tr_Name = ev_Test e,
                    tr_Status = StatusRunning, tr_Output = [], tr_Duration = 0\<rparr>)"
proof (cases "ev_Action e = ''run''")
  case True
  then show ?thesis
    using assms by (auto simp: on_event_def on_run_def set_package_def testKey_def
        dest!: update_member split: if_splits)
next
  case nrun: False
  show ?thesis
  proof (cases "ev_Action e = ''output''")
    case True
    then show ?thesis
      using assms nrun
      by (auto simp: on_event_def on_output_def set_package_def Let_def
          dest!: update_member map_of_SomeD split: if_splits option.splits)
  next
    case False
    then show ?thesis
      using assms nrun
      by (auto simp: on_event_def on_test_done_def on_package_done_eq set_package_def Let_def
          delete_as_filter split: if_splits option.splits prod.splits)
  qed
qed

lemma tracked_ok_on_event:
  assumes "tracked_ok st" "packageResults st (ev_Package e) = Some pkg"
  shows "tracked_ok (on_event ord st e pkg)"
proof -
  have dom: "dom (packageResults (on_event ord st e pkg)) = dom (packageResults st)"
    using assms(2) by (rule on_event_dom)
  have d: "distinct (map fst (currentTestResults st))"
    and ent: "\<And>k t. (k, t) \<in> set (currentTestResults st) \<Longrightarrow>
           k = tr_PackageName t @ ''/'' @ tr_Name t \<and> tr_Status t = StatusRunning
           \<and> tr_Duration t = 0 \<and> tr_PackageName t \<in> dom (packageResults st)"
    using assms(1) by (auto simp: tracked_ok_def)
  have pin: "ev_Package e \<in> dom (packageResults st)" using assms(2) by auto
  have cur: "distinct (map fst (currentTestResults (on_event ord st e pkg)))"
    using d
    by (auto simp: handler_defs delete_as_filter distinct_map_filter
        intro!: AList.distinct_update split: option.splits prod.splits)
  have "k = tr_PackageName t @ ''/'' @ tr_Name t \<and> tr_Status t = StatusRunning
           \<and> tr_Duration t = 0 \<and> tr_PackageName t \<in> dom (packageResults st)"
    if "(k, t) \<in> set (currentTestResults (on_event ord st e pkg))" for k t
    using on_event_tracked [OF that]
  proof (elim disjE exE conjE)
    fix t0
    assume "(k, t0) \<in> set (currentTestResults st)" "tr_PackageName t = tr_PackageName t0"
      "tr_Name t = tr_Name t0" "tr_Status t = tr_Status t0" "tr_Duration t = tr_Duration t0"
    then show ?thesis using ent [of k t0] by simp
  next
    assume "t = \<lparr>tr_PackageName = ev_Package e, tr_Name = ev_Test e,
                    tr_Status = StatusRunning, tr_Output = [], tr_Duration = 0\<rparr>"
      "k = ev_Package e @ ''/'' @ ev_Test e"
    then show ?thesis using pin by simp
  qed
  then show ?thesis
    unfolding tracked_ok_def dom using cur by blast
qed

lemma tracked_ok_parse_line:
  assumes "tracked_ok st"
  shows "tracked_ok (parse_line ord st l)"
proof (cases l)
  case EmptyLine
  then show ?thesis using assms by (auto simp: tracked_ok_def)
next
  case (Malformed raw)
  then show ?thesis using assms by (auto simp: tracked_ok_def)
next
  case (Decoded e)
  let ?st0 = "st\<lparr>lineNumber := Suc (lineNumber st)\<rparr>"
  have ok0: "tracked_ok ?st0" using assms by (auto simp: tracked_ok_def)
  show ?thesis
  proof (cases "ensure_package ?st0 e")
    case None
    then show ?thesis using ok0 Decoded by simp
  next
    case (Some r)
    obtain st1 e1 pkg where r: "r = (st1, e1, pkg)" by (cases r)
    note ens = Some [unfolded r]
    have ok1: "tracked_ok st1"
      using ens
    proof (cases rule: ensure_package_cases)
      case existing
      then show ?thesis using ok0 by simp
    next
      case fresh
      then show ?thesis using ok0 by (auto simp: tracked_ok_def)
    qed
    have "tracked_ok (on_event ord st1 e1 pkg)"
      using ok1 ensure_package_lookup [OF ens] by (rule tracked_ok_on_event)
    then show ?thesis using Decoded Some r by simp
  qed
qed

lemma tracked_ok_parse_lines:
  "tracked_ok st \<Longrightarrow> tracked_ok (parse_lines ord st ls)"
  unfolding parse_lines_def
  by (induction ls arbitrary: st) (auto intro: tracked_ok_parse_line)

lemma tracked_ok_initial: "tracked_ok initial_state"
  by (simp add: tracked_ok_def initial_state_def)

subsection \<open>Durations\<close>



lemma tracked_ok_running:
  "tracked_ok st \<Longrightarrow> (k, t) \<in> set (currentTestResults st) \<Longrightarrow> tr_Status t = StatusRunning"
  unfolding tracked_ok_def by blast

lemma tracked_ok_key:
  "tracked_ok st \<Longrightarrow> (k, t) \<in> set (currentTestResults st) \<Longrightarrow>
     k = tr_PackageName t @ ''/'' @ tr_Name t"
  unfolding tracked_ok_def by blast

lemma tracked_ok_known:
  "tracked_ok st \<Longrightarrow> (k, t) \<in> set (currentTestResults st) \<Longrightarrow>
     tr_PackageName t \<in> dom (packageResults st)"
  unfolding tracked_ok_def by blast

lemma tracked_ok_distinct:
  "tracked_ok st \<Longrightarrow> distinct (map fst (currentTestResults st))"
  unfolding tracked_ok_def by blast



lemma on_malformed_tracked_ok:
  "tracked_ok st \<Longrightarrow> tracked_ok (on_malformed st raw)"
  by (simp add: tracked_ok_def)





lemmas stream_defs = parse_defs event_def stream_def

subsection \<open>The order of packages\<close>

lemma ordered_parse_line:
  assumes "packages_ok st"
  shows "orderedPackageNames (parse_line ord st l) =
           foldl (\<lambda>acc p. if p \<in> set acc then acc else acc @ [p]) (orderedPackageNames st)
             (seen_packages [l])"
proof (cases l)
  case EmptyLine
  then show ?thesis by simp
next
  case (Malformed raw)
  then show ?thesis by simp
next
  case (Decoded e)
  let ?st0 = "st\<lparr>lineNumber := Suc (lineNumber st)\<rparr>"
  show ?thesis
  proof (cases "ensure_package ?st0 e")
    case None
    then show ?thesis using Decoded ensure_package_None [OF None] by simp
  next
    case (Some r)
    obtain st1 e1 pkg where r: "r = (st1, e1, pkg)" by (cases r)
    note ens = Some [unfolded r]
    have "orderedPackageNames st1 =
            foldl (\<lambda>acc p. if p \<in> set acc then acc else acc @ [p]) (orderedPackageNames st)
              (seen_packages [l])"
      using ens
    proof (cases rule: ensure_package_cases)
      case existing
      have ne: "ev_Package e \<noteq> []"
        using existing(3) packages_ok_nonempty [OF assms] by auto
      have "ev_Package e \<in> set (orderedPackageNames st)"
        using existing(3) packages_ok_dom [OF assms] by auto
      then show ?thesis
        using existing ne Decoded by (simp add: named_package_def)
    next
      case fresh
      then show ?thesis using Decoded by simp
    qed
    then show ?thesis using Decoded Some r by simp
  qed
qed

lemma seen_packages_append: "seen_packages (xs @ ys) = seen_packages xs @ seen_packages ys"
  by (induction xs rule: seen_packages.induct) (auto split: option.splits)

lemma ordered_parse_lines:
  assumes "packages_ok st"
  shows "orderedPackageNames (parse_lines ord st ls) =
           foldl (\<lambda>acc p. if p \<in> set acc then acc else acc @ [p]) (orderedPackageNames st)
             (seen_packages ls)"
  using assms
proof (induction ls arbitrary: st)
  case Nil
  then show ?case by (simp add: parse_lines_def)
next
  case (Cons l ls)
  have "parse_lines ord st (l # ls) = parse_lines ord (parse_line ord st l) ls"
    by (simp add: parse_lines_def)
  moreover have "seen_packages (l # ls) = seen_packages [l] @ seen_packages ls"
    using seen_packages_append [of "[l]" ls] by simp
  ultimately show ?case
    using Cons.IH [OF packages_ok_parse_line [OF Cons.prems]] ordered_parse_line [OF Cons.prems]
    by simp
qed

lemma add_new_first_seen:
  "foldl (\<lambda>acc p. if p \<in> set acc then acc else acc @ [p]) acc ps =
     acc @ filter (\<lambda>p. p \<notin> set acc) (first_seen_order ps)"
proof (induction ps arbitrary: acc)
  case Nil
  then show ?case by simp
next
  case (Cons p ps)
  show ?case
  proof (cases "p \<in> set acc")
    case True
    then have "filter (\<lambda>q. q \<notin> set acc) (removeAll p (first_seen_order ps))
               = filter (\<lambda>q. q \<notin> set acc) (first_seen_order ps)"
      by (auto simp: removeAll_filter_not_eq intro!: filter_cong)
    then show ?thesis using True Cons.IH [of acc] by simp
  next
    case False
    have "filter (\<lambda>q. q \<notin> set (acc @ [p])) (first_seen_order ps)
          = filter (\<lambda>q. q \<notin> set acc) (removeAll p (first_seen_order ps))"
      by (auto simp: removeAll_filter_not_eq intro!: filter_cong)
    then show ?thesis using False Cons.IH [of "acc @ [p]"] by simp
  qed
qed

lemma ordered_first_seen:
  "orderedPackageNames (parse_lines ord initial_state ls) = first_seen_order (seen_packages ls)"
  using ordered_parse_lines [OF packages_ok_initial, of ord ls]
  by (simp add: add_new_first_seen initial_state_def)

subsection \<open>The assembled list\<close>

lemma assemble_names:
  assumes "\<And>p. p \<in> set names \<Longrightarrow> \<exists>pkg. pkgs p = Some pkg \<and> pr_PackageName pkg = p"
  shows "map pr_PackageName (assemble srt pkgs names) = names"
  using assms
proof (induction names)
  case Nil
  then show ?case by simp
next
  case (Cons a names)
  from Cons.prems [of a] obtain pkg where "pkgs a = Some pkg" "pr_PackageName pkg = a"
    by auto
  then show ?case using Cons by simp
qed

lemma final_sweep_name:
  "final_sweep ord st p = Some pkg' \<Longrightarrow>
     \<exists>pkg. packageResults st p = Some pkg \<and> pr_PackageName pkg' = pr_PackageName pkg
        \<and> pr_SummaryOutput pkg' = pr_SummaryOutput pkg \<and> pr_Duration pkg' = pr_Duration pkg"
  by (auto simp: final_sweep_lookup split: option.splits if_splits)

lemma final_sweep_dom: "dom (final_sweep ord st) = dom (packageResults st)"
  by (auto simp: final_sweep_lookup split: option.splits)

lemma result_names:
  assumes "packages_ok st"
  shows "map pr_PackageName (assemble srt (final_sweep ord st) (orderedPackageNames st))
         = orderedPackageNames st"
proof (rule assemble_names)
  fix p assume "p \<in> set (orderedPackageNames st)"
  then have "p \<in> dom (final_sweep ord st)"
    using packages_ok_dom [OF assms] by (simp add: final_sweep_dom)
  then obtain pkg' where p': "final_sweep ord st p = Some pkg'" by blast
  from final_sweep_name [OF p'] obtain pkg where "packageResults st p = Some pkg"
    "pr_PackageName pkg' = pr_PackageName pkg" by blast
  then show "\<exists>pkg. final_sweep ord st p = Some pkg \<and> pr_PackageName pkg = p"
    using p' packages_ok_name [OF assms] by simp
qed

lemma Parse_Inr:
  "Parse srt ord input = Inr result \<longleftrightarrow>
     ScanErr input = None
     \<and> result = assemble srt (final_sweep ord (parse_lines ord initial_state (Lines input)))
                  (orderedPackageNames (parse_lines ord initial_state (Lines input)))"
  by (auto simp: Parse_def Let_def split: option.splits)

subsection \<open>Looking a package up in the result\<close>

lemma result_of_assemble_notin:
  "(\<And>q pkg. pkgs q = Some pkg \<Longrightarrow> pr_PackageName pkg = q) \<Longrightarrow> p \<notin> set names \<Longrightarrow>
     result_of (assemble srt pkgs names) p = None"
  by (induction names) (auto simp: result_of_def split: option.splits)

lemma result_of_assemble:
  assumes "\<And>q pkg. pkgs q = Some pkg \<Longrightarrow> pr_PackageName pkg = q" "p \<in> set names"
  shows "result_of (assemble srt pkgs names) p =
           map_option (\<lambda>pkg. pkg\<lparr>pr_Tests := sort_Slice srt (pr_Tests pkg)\<rparr>) (pkgs p)"
  using assms(2)
proof (induction names)
  case Nil
  then show ?case by simp
next
  case (Cons a names)
  show ?case
  proof (cases "pkgs a")
    case None
    then show ?thesis
      using Cons assms(1) result_of_assemble_notin [of pkgs p names]
      by (cases "p \<in> set names") (auto simp: result_of_def)
  next
    case (Some pkg)
    have "pr_PackageName pkg = a" using assms(1) Some by simp
    then show ?thesis
      using Cons Some by (auto simp: result_of_def)
  qed
qed

lemma final_sweep_names:
  assumes "packages_ok st" "final_sweep ord st q = Some pkg"
  shows "pr_PackageName pkg = q"
proof -
  from final_sweep_name [OF assms(2)] obtain pkg0 where "packageResults st q = Some pkg0"
    "pr_PackageName pkg = pr_PackageName pkg0" by blast
  then show ?thesis using packages_ok_name [OF assms(1)] by simp
qed

lemma Parse_result_of:
  assumes "ScanErr input = None"
  shows "\<exists>result. Parse srt ord input = Inr result
           \<and> (\<forall>p. result_of result p =
                 map_option (\<lambda>pkg. pkg\<lparr>pr_Tests := sort_Slice srt (pr_Tests pkg)\<rparr>)
                   (final_sweep ord (parse_lines ord initial_state (Lines input)) p))"
proof -
  let ?st = "parse_lines ord initial_state (Lines input)"
  let ?result = "assemble srt (final_sweep ord ?st) (orderedPackageNames ?st)"
  have ok: "packages_ok ?st"
    by (intro packages_ok_parse_lines packages_ok_initial)
  have "result_of ?result p =
          map_option (\<lambda>pkg. pkg\<lparr>pr_Tests := sort_Slice srt (pr_Tests pkg)\<rparr>) (final_sweep ord ?st p)"
    for p
  proof (cases "p \<in> set (orderedPackageNames ?st)")
    case True
    then show ?thesis
      using final_sweep_names [OF ok] by (intro result_of_assemble) auto
  next
    case False
    then have "p \<notin> dom (final_sweep ord ?st)"
      using packages_ok_dom [OF ok] by (simp add: final_sweep_dom)
    then have "final_sweep ord ?st p = None" by blast
    then show ?thesis
      using False final_sweep_names [OF ok] result_of_assemble_notin [of "final_sweep ord ?st" p]
      by simp
  qed
  then show ?thesis using assms by (simp add: Parse_Inr)
qed

subsection \<open>The line counter\<close>

lemma lineNumber_parse_line: "lineNumber (parse_line ord st l) = Suc (lineNumber st)"
proof (cases l)
  case (Decoded e)
  show ?thesis
  proof (cases "ensure_package (st\<lparr>lineNumber := Suc (lineNumber st)\<rparr>) e")
    case None
    then show ?thesis using Decoded by simp
  next
    case (Some r)
    obtain st1 e1 pkg where r: "r = (st1, e1, pkg)" by (cases r)
    show ?thesis
      using Decoded Some r ensure_package_frame(2) [OF Some [unfolded r]] by simp
  qed
qed simp_all

lemma lineNumber_parse_lines:
  "lineNumber (parse_lines ord st ls) = lineNumber st + length ls"
  unfolding parse_lines_def
  by (induction ls arbitrary: st) (simp_all add: lineNumber_parse_line)

lemma parse_lines_append:
  "parse_lines ord st (xs @ ys) = parse_lines ord (parse_lines ord st xs) ys"
  by (simp add: parse_lines_def)

lemma parse_lines_Cons:
  "parse_lines ord st (l # ls) = parse_lines ord (parse_line ord st l) ls"
  by (simp add: parse_lines_def)

lemma parse_lines_Nil [simp]: "parse_lines ord st [] = st"
  by (simp add: parse_lines_def)

subsection \<open>The orphaned package\<close>

lemma in_flight_Nil_iff:
  "in_flight st P = [] \<longleftrightarrow> (\<forall>k t. (k, t) \<in> set (currentTestResults st) \<longrightarrow> tr_PackageName t \<noteq> P)"
  by (fastforce simp: in_flight_def filter_empty_conv)

lemma on_event_in_flight_other:
  assumes "in_flight st P = []" "ev_Package e \<noteq> P"
  shows "in_flight (on_event ord st e pkg) P = []"
  unfolding in_flight_Nil_iff
proof (intro allI impI)
  fix k t assume "(k, t) \<in> set (currentTestResults (on_event ord st e pkg))"
  from on_event_tracked [OF this] show "tr_PackageName t \<noteq> P"
  proof (elim disjE exE conjE)
    fix t0 assume "(k, t0) \<in> set (currentTestResults st)" "tr_PackageName t = tr_PackageName t0"
    then show ?thesis using assms(1) unfolding in_flight_Nil_iff by metis
  next
    assume "t = \<lparr>tr_PackageName = ev_Package e, tr_Name = ev_Test e,
                    tr_Status = StatusRunning, tr_Output = [], tr_Duration = 0\<rparr>"
    then show ?thesis using assms(2) by simp
  qed
qed

lemma on_event_orphaned_output:
  assumes "ev_Action e = ''output''" "ev_Test e = []"
  shows "on_event ord st e pkg =
           st\<lparr>packageResults := (packageResults st)(ev_Package e \<mapsto>
                pkg\<lparr>pr_SummaryOutput := pr_SummaryOutput pkg @ [TrimRightNewline (ev_Output e)]\<rparr>)\<rparr>"
  using assms by (simp add: on_event_def on_output_def set_package_def)

lemma orphan_untouched_parse_line:
  assumes "orphan_untouched st" "\<And>e. l = Decoded e \<Longrightarrow> ev_Package e \<noteq> orphanedOutputPackage"
  shows "orphan_untouched (parse_line ord st l)"
proof (cases l)
  case EmptyLine
  then show ?thesis using assms(1) by (simp add: orphan_untouched_def in_flight_def)
next
  case (Malformed raw)
  have "pr_Status pkg' = StatusUnknown \<and> pr_Tests pkg' = []"
    if "packageResults (parse_line ord st l) orphanedOutputPackage = Some pkg'" for pkg'
  proof -
    from that obtain pkg where "packageResults st orphanedOutputPackage = Some pkg"
      "pr_Tests pkg' = pr_Tests pkg" "pr_Status pkg' = pr_Status pkg"
      using Malformed by (auto dest!: on_malformed_lookup)
    then show ?thesis using assms(1) by (simp add: orphan_untouched_def)
  qed
  moreover have "in_flight (parse_line ord st l) orphanedOutputPackage = []"
    using assms(1) Malformed by (simp add: orphan_untouched_def in_flight_def)
  ultimately show ?thesis unfolding orphan_untouched_def by blast
next
  case (Decoded e)
  let ?st0 = "st\<lparr>lineNumber := Suc (lineNumber st)\<rparr>"
  have u0: "orphan_untouched ?st0"
    using assms(1) by (simp add: orphan_untouched_def in_flight_def)
  have ne: "ev_Package e \<noteq> orphanedOutputPackage" using assms(2) Decoded by simp
  show ?thesis
  proof (cases "ensure_package ?st0 e")
    case None
    then show ?thesis using u0 Decoded by simp
  next
    case (Some r)
    obtain st1 e1 pkg where r: "r = (st1, e1, pkg)" by (cases r)
    note ens = Some [unfolded r]
    have look: "packageResults st1 (ev_Package e1) = Some pkg"
      using ens by (rule ensure_package_lookup)
    have u1: "orphan_untouched st1"
      using ens
    proof (cases rule: ensure_package_cases)
      case existing
      then show ?thesis using u0 by simp
    next
      case fresh
      then show ?thesis using u0
        by (auto simp: orphan_untouched_def in_flight_def new_package_def)
    qed
    have "orphan_untouched (on_event ord st1 e1 pkg)"
    proof (cases "ev_Package e1 = orphanedOutputPackage")
      case True
      have "orphaned_output e"
        using ens ne True by (auto elim!: ensure_package_cases)
      then have "ev_Action e1 = ''output''" "ev_Test e1 = []"
        using ensure_package_event [OF ens] by (simp_all add: orphaned_output_def)
      from on_event_orphaned_output [OF this] show ?thesis
        using u1 look True by (auto simp: orphan_untouched_def in_flight_def)
    next
      case False
      have "in_flight (on_event ord st1 e1 pkg) orphanedOutputPackage = []"
        using u1 False by (intro on_event_in_flight_other) (simp_all add: orphan_untouched_def)
      moreover have "packageResults (on_event ord st1 e1 pkg) orphanedOutputPackage
                     = packageResults st1 orphanedOutputPackage"
        using False by (intro on_event_other) simp
      ultimately show ?thesis using u1 by (simp add: orphan_untouched_def)
    qed
    then show ?thesis using Decoded Some r by simp
  qed
qed

lemma orphan_untouched_parse_lines:
  assumes "orphan_untouched st"
    "\<And>e. Decoded e \<in> set ls \<Longrightarrow> ev_Package e \<noteq> orphanedOutputPackage"
  shows "orphan_untouched (parse_lines ord st ls)"
  using assms
proof (induction ls arbitrary: st)
  case Nil
  then show ?case by simp
next
  case (Cons l ls)
  have "orphan_untouched (parse_line ord st l)"
    using Cons.prems by (intro orphan_untouched_parse_line) auto
  then show ?case
    using Cons.IH [of "parse_line ord st l"] Cons.prems(2) by (simp add: parse_lines_Cons)
qed

lemma orphan_untouched_initial: "orphan_untouched initial_state"
  by (simp add: orphan_untouched_def in_flight_def initial_state_def)

lemma orphan_untouched_final:
  assumes "orphan_untouched st" "packageResults st orphanedOutputPackage = Some pkg"
  shows "final_sweep ord st orphanedOutputPackage = Some pkg"
proof -
  have "filter (\<lambda>t. tr_PackageName t = orphanedOutputPackage \<and> tr_Status t = StatusRunning)
          (map snd (visit ord 0 (currentTestResults st))) = []"
    using assms(1) by (auto simp: orphan_untouched_def in_flight_Nil_iff filter_empty_conv)
  then show ?thesis using assms(2) by (simp add: final_sweep_lookup)
qed

text \<open>A summary line of the orphaned package stays while no line names that package
  and no further orphaned output arrives.\<close>

lemma orphan_line_parse_line:
  assumes "packageResults st orphanedOutputPackage = Some pkg" "x \<in> set (pr_SummaryOutput pkg)"
    "\<And>e. l = Decoded e \<Longrightarrow> ev_Package e \<noteq> orphanedOutputPackage \<and> \<not> orphaned_output e"
  shows "\<exists>pkg'. packageResults (parse_line ord st l) orphanedOutputPackage = Some pkg'
           \<and> x \<in> set (pr_SummaryOutput pkg')"
proof (cases l)
  case EmptyLine
  then show ?thesis using assms by simp
next
  case (Malformed raw)
  then show ?thesis
    using assms(1,2) by (auto simp: on_malformed_def Let_def split: option.splits)
next
  case (Decoded e)
  let ?st0 = "st\<lparr>lineNumber := Suc (lineNumber st)\<rparr>"
  have ne: "ev_Package e \<noteq> orphanedOutputPackage" "\<not> orphaned_output e"
    using assms(3) Decoded by simp_all
  show ?thesis
  proof (cases "ensure_package ?st0 e")
    case None
    then show ?thesis using assms(1,2) Decoded by simp
  next
    case (Some r)
    obtain st1 e1 pkg1 where r: "r = (st1, e1, pkg1)" by (cases r)
    note ens = Some [unfolded r]
    have e1: "ev_Package e1 \<noteq> orphanedOutputPackage"
      using ens ne by (auto elim!: ensure_package_cases)
    have "packageResults st1 orphanedOutputPackage = Some pkg"
      using ens e1 assms(1) by (auto elim!: ensure_package_cases)
    then have "packageResults (on_event ord st1 e1 pkg1) orphanedOutputPackage = Some pkg"
      using e1 on_event_other [of orphanedOutputPackage e1 ord st1 pkg1] by simp
    then show ?thesis using Decoded Some r assms(2) by simp
  qed
qed

lemma orphan_line_parse_lines:
  assumes "packageResults st orphanedOutputPackage = Some pkg" "x \<in> set (pr_SummaryOutput pkg)"
    "\<And>e. Decoded e \<in> set ls \<Longrightarrow> ev_Package e \<noteq> orphanedOutputPackage \<and> \<not> orphaned_output e"
  shows "\<exists>pkg'. packageResults (parse_lines ord st ls) orphanedOutputPackage = Some pkg'
           \<and> x \<in> set (pr_SummaryOutput pkg')"
  using assms
proof (induction ls arbitrary: st pkg)
  case Nil
  then show ?case by simp
next
  case (Cons l ls)
  have "\<exists>pkg'. packageResults (parse_line ord st l) orphanedOutputPackage = Some pkg'
           \<and> x \<in> set (pr_SummaryOutput pkg')"
    using Cons.prems by (intro orphan_line_parse_line) auto
  then obtain pkg' where "packageResults (parse_line ord st l) orphanedOutputPackage = Some pkg'"
    "x \<in> set (pr_SummaryOutput pkg')" by blast
  then show ?case
    using Cons.IH [of "parse_line ord st l" pkg'] Cons.prems(3) by (simp add: parse_lines_Cons)
qed

lemma parse_line_orphaned_output:
  assumes "packageResults st [] = None" "orphaned_output e"
  shows "packageResults (parse_line ord st (Decoded e)) orphanedOutputPackage =
           Some ((new_package orphanedOutputPackage)
                   \<lparr>pr_SummaryOutput := [TrimRightNewline (ev_Output e)]\<rparr>)"
  using assms
  by (simp add: orphaned_output_def ensure_package_def add_package_def on_event_def
      on_output_def set_package_def new_package_def orphanedOutputPackage_def)

subsection \<open>Tests that stay in flight\<close>

lemma tracked_ok_lookup:
  "tracked_ok st \<Longrightarrow> (k, t) \<in> set (currentTestResults st) \<Longrightarrow>
     map_of (currentTestResults st) k = Some t"
  by (simp add: tracked_ok_distinct)

lemma update_keeps:
  "(k, t) \<in> set al \<Longrightarrow> k \<noteq> k' \<Longrightarrow> (k, t) \<in> set (AList.update k' v al)"
  by (induction al) auto

lemma update_sets: "(k, v) \<in> set (AList.update k v al)"
  by (induction al) auto

lemma on_event_keeps_in_flight:
  assumes ok: "tracked_ok st"
    and mem: "(P @ ''/'' @ T, t) \<in> set (currentTestResults st)"
    and t: "tr_PackageName t = P" "tr_Name t = T"
    and "leaves_in_flight P T (Decoded e)"
    and T: "T \<noteq> []"
  shows "\<exists>t'. (P @ ''/'' @ T, t') \<in> set (currentTestResults (on_event ord st e pkg))
           \<and> tr_PackageName t' = P \<and> tr_Name t' = T"
proof -
  let ?key = "P @ ''/'' @ T"
  have l1: "\<not> (terminal e \<and> ev_Test e = [] \<and> ev_Package e = P)"
    and l2: "\<not> (terminal e \<and> ev_Test e \<noteq> [] \<and> ev_Package e @ ''/'' @ ev_Test e = ?key)"
    and l3: "\<not> (ev_Action e = ''run'' \<and> ev_Test e \<noteq> [] \<and> ev_Package e \<noteq> P
               \<and> ev_Package e @ ''/'' @ ev_Test e = ?key)"
    using assms(5) by (auto simp: leaves_in_flight_def)
  have look: "map_of (currentTestResults st) ?key = Some t"
    using ok mem by (rule tracked_ok_lookup)
  show ?thesis
  proof (cases "ev_Action e = ''run''")
    case True
    show ?thesis
    proof (cases "ev_Test e \<noteq> [] \<and> ev_Package e @ ''/'' @ ev_Test e = ?key")
      case same: True
      then have "ev_Package e = P" using l3 True by blast
      then have "ev_Test e = T" using same by simp
      then show ?thesis
        using True same \<open>ev_Package e = P\<close>
        by (auto simp: on_event_def on_run_def testKey_def intro!: exI update_sets)
    next
      case False
      then show ?thesis
        using True mem t
        by (auto simp: on_event_def on_run_def testKey_def set_package_def intro!: exI update_keeps)
    qed
  next
    case nrun: False
    show ?thesis
    proof (cases "ev_Action e = ''output''")
      case True
      show ?thesis
      proof (cases "ev_Test e \<noteq> [] \<and> ev_Package e @ ''/'' @ ev_Test e = ?key")
        case same: True
        then show ?thesis
          using True nrun look t
          by (auto simp: on_event_def on_output_def testKey_def Let_def intro!: exI update_sets)
      next
        case False
        then show ?thesis
          using True nrun mem t
          by (auto simp: on_event_def on_output_def testKey_def set_package_def Let_def
              split: option.splits intro!: exI update_keeps)
      qed
    next
      case nout: False
      show ?thesis
      proof (cases "terminal_status (ev_Action e)")
        case None
        then show ?thesis using nrun nout mem t by (auto simp: on_event_def)
      next
        case (Some status)
        then have trm: "terminal e"
          by (auto simp: terminal_status_def terminal_def split: if_splits)
        show ?thesis
        proof (cases "ev_Test e \<noteq> []")
          case True
          then have "testKey e \<noteq> ?key" using l2 trm by (simp add: testKey_def)
          then show ?thesis
            using nrun nout Some True mem t
            by (auto simp: on_event_def on_test_done_def set_package_def Let_def delete_as_filter
                split: option.splits prod.splits)
        next
          case False
          then have ne: "ev_Package e \<noteq> P" using l1 trm by blast
          have "?key \<notin> fst ` {kv \<in> set (currentTestResults st).
                                  tr_PackageName (snd kv) = ev_Package e}"
          proof
            assume "?key \<in> fst ` {kv \<in> set (currentTestResults st).
                                  tr_PackageName (snd kv) = ev_Package e}"
            then obtain t2 where "(?key, t2) \<in> set (currentTestResults st)"
              "tr_PackageName t2 = ev_Package e" by auto
            then show False
              using tracked_ok_lookup [OF ok] look t ne by fastforce
          qed
          then show ?thesis
            using nrun nout Some False mem t
            by (auto simp: on_event_def on_package_done_eq set_package_def)
        qed
      qed
    qed
  qed
qed

lemma ensure_package_tracked_ok:
  assumes "ensure_package st e = Some (st1, e1, pkg)" "tracked_ok st"
  shows "tracked_ok st1"
  using assms(1)
proof (cases rule: ensure_package_cases)
  case existing
  then show ?thesis using assms(2) by simp
next
  case fresh
  have "dom (packageResults st) \<subseteq> dom (packageResults st1)"
    "currentTestResults st1 = currentTestResults st"
    using fresh(6) by auto
  then show ?thesis
    using assms(2) unfolding tracked_ok_def by (metis subsetD)
qed

lemma orphaned_output_leaves:
  "orphaned_output e \<Longrightarrow> leaves_in_flight P T (Decoded (e\<lparr>ev_Package := X\<rparr>))"
  by (simp add: leaves_in_flight_def orphaned_output_def terminal_def)

lemma parse_line_keeps_in_flight:
  assumes ok: "tracked_ok st"
    and mem: "(P @ ''/'' @ T, t) \<in> set (currentTestResults st)"
    and t: "tr_PackageName t = P" "tr_Name t = T"
    and leaves: "leaves_in_flight P T l"
    and T: "T \<noteq> []"
  shows "\<exists>t'. (P @ ''/'' @ T, t') \<in> set (currentTestResults (parse_line ord st l))
           \<and> tr_PackageName t' = P \<and> tr_Name t' = T"
proof (cases l)
  case EmptyLine
  then show ?thesis using mem t by auto
next
  case (Malformed raw)
  then show ?thesis using mem t by auto
next
  case (Decoded e)
  let ?st0 = "st\<lparr>lineNumber := Suc (lineNumber st)\<rparr>"
  show ?thesis
  proof (cases "ensure_package ?st0 e")
    case None
    then show ?thesis using Decoded mem t by auto
  next
    case (Some r)
    obtain st1 e1 pkg where r: "r = (st1, e1, pkg)" by (cases r)
    note ens = Some [unfolded r]
    have cur1: "currentTestResults st1 = currentTestResults st"
      using ensure_package_frame(1) [OF ens] by simp
    have ok0: "tracked_ok ?st0" using ok by (simp add: tracked_ok_def)
    have ok1: "tracked_ok st1"
      using ens ok0 by (rule ensure_package_tracked_ok)
    have l1: "leaves_in_flight P T (Decoded e1)"
      using ens
    proof (cases rule: ensure_package_cases)
      case existing
      then show ?thesis using leaves Decoded by simp
    next
      case fresh
      from fresh(2) show ?thesis
      proof
        assume "e1 = e"
        then show ?thesis using leaves Decoded by simp
      next
        assume "orphaned_output e \<and> e1 = e\<lparr>ev_Package := orphanedOutputPackage\<rparr>"
        then show ?thesis using orphaned_output_leaves by blast
      qed
    qed
    have "\<exists>t'. (P @ ''/'' @ T, t') \<in> set (currentTestResults (on_event ord st1 e1 pkg))
           \<and> tr_PackageName t' = P \<and> tr_Name t' = T"
      using ok1 mem [folded cur1] t l1 T by (rule on_event_keeps_in_flight)
    then show ?thesis using Decoded Some r by simp
  qed
qed

lemma parse_lines_keeps_in_flight:
  assumes "tracked_ok st"
    and "(P @ ''/'' @ T, t) \<in> set (currentTestResults st)"
    and "tr_PackageName t = P" "tr_Name t = T"
    and "\<And>l. l \<in> set ls \<Longrightarrow> leaves_in_flight P T l"
    and "T \<noteq> []"
  shows "\<exists>t'. (P @ ''/'' @ T, t') \<in> set (currentTestResults (parse_lines ord st ls))
           \<and> tr_PackageName t' = P \<and> tr_Name t' = T"
  using assms
proof (induction ls arbitrary: st t)
  case Nil
  then show ?case by auto
next
  case (Cons l ls)
  have "\<exists>t'. (P @ ''/'' @ T, t') \<in> set (currentTestResults (parse_line ord st l))
           \<and> tr_PackageName t' = P \<and> tr_Name t' = T"
    using Cons.prems by (intro parse_line_keeps_in_flight) auto
  then obtain t' where "(P @ ''/'' @ T, t') \<in> set (currentTestResults (parse_line ord st l))"
    "tr_PackageName t' = P" "tr_Name t' = T" by blast
  then show ?case
    using Cons.IH [of "parse_line ord st l" t'] Cons.prems(1,5,6) tracked_ok_parse_line
    by (simp add: parse_lines_Cons)
qed

lemma parse_line_run_test:
  assumes "ev_Action r = ''run''" "ev_Package r \<noteq> []" "ev_Test r \<noteq> []"
  shows "\<exists>t. (ev_Package r @ ''/'' @ ev_Test r, t) \<in> set (currentTestResults (parse_line ord st (Decoded r)))
           \<and> tr_PackageName t = ev_Package r \<and> tr_Name t = ev_Test r"
proof -
  let ?st0 = "st\<lparr>lineNumber := Suc (lineNumber st)\<rparr>"
  have "named_package r \<noteq> None" using assms(2) by (simp add: named_package_def)
  then obtain x where "ensure_package ?st0 r = Some x"
    using ensure_package_None [of ?st0 r] by (cases "ensure_package ?st0 r") auto
  then obtain st1 e1 pkg where ens: "ensure_package ?st0 r = Some (st1, e1, pkg)"
    by (cases x) auto
  have e1: "e1 = r"
    using ens assms(2) by (cases rule: ensure_package_cases) (auto simp: orphaned_output_def)
  have "currentTestResults (on_event ord st1 r pkg) =
          AList.update (ev_Package r @ ''/'' @ ev_Test r)
            \<lparr>tr_PackageName = ev_Package r, tr_Name = ev_Test r, tr_Status = StatusRunning,
             tr_Output = [], tr_Duration = 0\<rparr> (currentTestResults st1)"
    using assms by (simp add: on_event_def on_run_def testKey_def)
  then have m: "(ev_Package r @ ''/'' @ ev_Test r,
              \<lparr>tr_PackageName = ev_Package r, tr_Name = ev_Test r, tr_Status = StatusRunning,
               tr_Output = [], tr_Duration = 0\<rparr>)
             \<in> set (currentTestResults (parse_line ord st (Decoded r)))"
    using ens e1 by (simp add: update_sets)
  have "tr_PackageName \<lparr>tr_PackageName = ev_Package r, tr_Name = ev_Test r,
               tr_Status = StatusRunning, tr_Output = [], tr_Duration = 0\<rparr> = ev_Package r
        \<and> tr_Name \<lparr>tr_PackageName = ev_Package r, tr_Name = ev_Test r,
               tr_Status = StatusRunning, tr_Output = [], tr_Duration = 0\<rparr> = ev_Test r"
    by simp
  with m show ?thesis by blast
qed

subsection \<open>The sweep after the loop\<close>

lemma filter_eq_distinct:
  "distinct xs \<Longrightarrow> x \<in> set xs \<Longrightarrow> filter (\<lambda>y. y = x) xs = [x]"
  by (induction xs) (auto simp: filter_empty_conv)

lemma distinct_visit:
  assumes "tracked_ok st"
  shows "distinct (visit ord n (currentTestResults st))"
proof -
  have "distinct (currentTestResults st)"
    using tracked_ok_distinct [OF assms] by (simp add: distinct_map)
  then show ?thesis
    using mset_eq_imp_distinct_iff [OF mset_visit [of ord n "currentTestResults st"]] by simp
qed

lemma swept_named:
  assumes ok: "tracked_ok st"
    and mem: "(P @ ''/'' @ T, t) \<in> set (currentTestResults st)"
    and t: "tr_PackageName t = P" "tr_Name t = T"
  shows "filter (\<lambda>x. tr_Name x = T)
           (filter (\<lambda>x. tr_PackageName x = P \<and> tr_Status x = StatusRunning)
              (map snd (visit ord n (currentTestResults st)))) = [t]"
proof -
  let ?es = "visit ord n (currentTestResults st)"
  let ?key = "P @ ''/'' @ T"
  have run: "tr_Status t = StatusRunning"
    using ok mem by (rule tracked_ok_running)
  have "(tr_Name (snd kv) = T \<and> tr_PackageName (snd kv) = P \<and> tr_Status (snd kv) = StatusRunning)
        \<longleftrightarrow> kv = (?key, t)" if "kv \<in> set ?es" for kv
  proof
    assume a: "tr_Name (snd kv) = T \<and> tr_PackageName (snd kv) = P
               \<and> tr_Status (snd kv) = StatusRunning"
    obtain k t' where kv: "kv = (k, t')" by (cases kv)
    have in_cur: "(k, t') \<in> set (currentTestResults st)" using that kv by simp
    have "k = ?key" using tracked_ok_key [OF ok in_cur] a kv by simp
    moreover have "map_of (currentTestResults st) k = Some t'"
      using ok in_cur by (rule tracked_ok_lookup)
    moreover have "map_of (currentTestResults st) ?key = Some t"
      using ok mem by (rule tracked_ok_lookup)
    ultimately show "kv = (?key, t)" using kv by simp
  next
    assume "kv = (?key, t)"
    then show "tr_Name (snd kv) = T \<and> tr_PackageName (snd kv) = P
               \<and> tr_Status (snd kv) = StatusRunning"
      using t run by simp
  qed
  then have "filter (\<lambda>kv. tr_PackageName (snd kv) = P \<and> tr_Status (snd kv) = StatusRunning
                \<and> tr_Name (snd kv) = T) ?es
             = filter (\<lambda>kv. kv = (?key, t)) ?es"
    by (intro filter_cong) auto
  also have "\<dots> = [(?key, t)]"
    using distinct_visit [OF ok] mem by (intro filter_eq_distinct) simp_all
  finally have "map snd (filter (\<lambda>kv. tr_PackageName (snd kv) = P \<and> tr_Status (snd kv) = StatusRunning
                \<and> tr_Name (snd kv) = T) ?es) = [t]"
    by simp
  then show ?thesis
    by (simp add: filter_map comp_def)
qed

lemma fail_unfinished_fields [simp]:
  "tr_Name (fail_unfinished text t) = tr_Name t"
  "tr_PackageName (fail_unfinished text t) = tr_PackageName t"
  "tr_Status (fail_unfinished text t) = StatusFail"
  "tr_Duration (fail_unfinished text t) = tr_Duration t"
  "tr_Output (fail_unfinished text t) = tr_Output t @ [text]"
  by (simp_all add: fail_unfinished_def)

lemma final_sweep_in_flight:
  assumes ok: "tracked_ok st"
    and mem: "(P @ ''/'' @ T, t) \<in> set (currentTestResults st)"
    and t: "tr_PackageName t = P" "tr_Name t = T"
  shows "\<exists>before after. packageResults st P = Some before \<and> final_sweep ord st P = Some after
           \<and> pr_Status after = StatusFail
           \<and> filter (\<lambda>x. tr_Name x = T) (pr_Tests after)
             = filter (\<lambda>x. tr_Name x = T) (pr_Tests before) @ [fail_unfinished incomplete_text t]"
proof -
  let ?sw = "filter (\<lambda>x. tr_PackageName x = P \<and> tr_Status x = StatusRunning)
              (map snd (visit ord 0 (currentTestResults st)))"
  have "P \<in> dom (packageResults st)"
    using tracked_ok_known [OF ok mem] t by simp
  then obtain before where b: "packageResults st P = Some before" by blast
  have named: "filter (\<lambda>x. tr_Name x = T) ?sw = [t]"
    using ok mem t by (rule swept_named)
  have ne: "?sw \<noteq> []"
  proof
    assume e: "?sw = []"
    show False using named unfolding e by simp
  qed
  have f: "final_sweep ord st P =
             Some (before\<lparr>pr_Tests := pr_Tests before @ map (fail_unfinished incomplete_text) ?sw,
                          pr_Status := StatusFail\<rparr>)"
    using b ne by (simp add: final_sweep_lookup)
  have "filter (\<lambda>x. tr_Name x = T) (map (fail_unfinished incomplete_text) ?sw)
        = map (fail_unfinished incomplete_text) (filter (\<lambda>x. tr_Name x = T) ?sw)"
    by (simp add: filter_map comp_def)
  then have "filter (\<lambda>x. tr_Name x = T) (map (fail_unfinished incomplete_text) ?sw)
        = [fail_unfinished incomplete_text t]"
    using named by simp
  then show ?thesis
    using b f by simp
qed

section \<open>The claims\<close>

text \<open>
  C5. The stream \<open>{run pkgB}\<close>, \<open>{output pkgB "# build failed"}\<close>,
  \<open>{fail pkgB, elapsed 0}\<close>, with no test-scoped event: whatever the order of map
  iteration and the sorting function, \<open>Parse\<close> returns the single package \<open>pkgB\<close> with
  status \<open>FAIL\<close>, whose only test is the placeholder \<open>Package pkgB Build Failed\<close> with status \<open>FAIL\<close> and the summary
  line as its output, and whose summary output is empty.
\<close>

theorem C5_build_failure_placeholder:
  "Parse srt ord
     \<lparr>Lines =
        [Decoded \<lparr>ev_Action = ''run'', ev_Package = ''pkgB'', ev_Test = [], ev_Elapsed = Float64 0 0,
                  ev_Output = []\<rparr>,
         Decoded \<lparr>ev_Action = ''output'', ev_Package = ''pkgB'', ev_Test = [], ev_Elapsed = Float64 0 0,
                  ev_Output = ''# build failed''\<rparr>,
         Decoded \<lparr>ev_Action = ''fail'', ev_Package = ''pkgB'', ev_Test = [], ev_Elapsed = Float64 0 0,
                  ev_Output = []\<rparr>],
      ScanErr = None\<rparr>
   = Inr [\<lparr>pr_PackageName = ''pkgB'', pr_Status = StatusFail, pr_SummaryOutput = [],
           pr_Tests =
             [\<lparr>tr_PackageName = ''pkgB'', tr_Name = ''Package pkgB Build Failed'',
               tr_Status = StatusFail, tr_Output = [''# build failed''], tr_Duration = 0\<rparr>],
           pr_Duration = 0\<rparr>]"
  by (simp add: parse_defs)

text \<open>
  C6. When the run completes with an error and nothing was accumulated from stdout,
  the report is a single package result with status \<open>FAIL\<close> that holds a single test
  with status \<open>FAIL\<close>, and the line of that test's output ends with the text of the
  error; in particular the report is not empty.
\<close>

theorem C6_failure_without_output:
  "\<exists>pkg t line.
     updateOnTestsComplete decode srt ord [] (Some err) = [pkg]
     \<and> pr_Status pkg = StatusFail \<and> pr_Tests pkg = [t] \<and> tr_Status t = StatusFail
     \<and> tr_Output t = [line] \<and> suffix err line
     \<and> updateOnTestsComplete decode srt ord [] (Some err) \<noteq> []"
  by (simp add: updateOnTestsComplete_def execution_error_report_def suffix_def)

text \<open>
  C9. A configuration of scope \<open>SingleTest\<close> with an empty package path or an empty
  test name, and one of scope \<open>PackageTests\<close> with an empty package path, is answered
  with a single completion message that carries an error: no command is started and no
  line message is sent.
\<close>

theorem C9_configuration_error:
  assumes "cfg_Type config = SingleTest \<and> (cfg_PackagePath config = [] \<or> cfg_TestName config = [])
           \<or> cfg_Type config = PackageTests \<and> cfg_PackagePath config = []"
  shows "Spawned (ExecuteTestsCmd os config) = None
         \<and> (\<exists>err. Messages (ExecuteTestsCmd os config) = [TestRunCompleteMsg (Some err)])
         \<and> (\<forall>line. TestOutputLineMsg line \<notin> set (Messages (ExecuteTestsCmd os config)))"
  using assms by (auto simp: ExecuteTestsCmd_def config_error_def)

theorem C9_configuration_error_witness:
  "Spawned (ExecuteTestsCmd (\<lambda>args dir. Exited [''{}''] None)
      \<lparr>cfg_Type = SingleTest, cfg_PackagePath = ''./pkg'', cfg_TestName = [],
       cfg_WorkingDir = ''/work''\<rparr>) = None
   \<and> Messages (ExecuteTestsCmd (\<lambda>args dir. Exited [''{}''] None)
      \<lparr>cfg_Type = SingleTest, cfg_PackagePath = ''./pkg'', cfg_TestName = [],
       cfg_WorkingDir = ''/work''\<rparr>)
     = [TestRunCompleteMsg
          (Some ''ExecuteTestsCmd: SingleTest requires a valid PackagePath and TestName'')]"
  using C9_configuration_error [of
      "\<lparr>cfg_Type = SingleTest, cfg_PackagePath = ''./pkg'', cfg_TestName = [],
        cfg_WorkingDir = ''/work''\<rparr>" "\<lambda>args dir. Exited [''{}''] None"]
  by (simp add: ExecuteTestsCmd_def config_error_def)




text \<open>
  C7. In the list \<open>Parse\<close> returns, the packages stand in the order in which their
  names are first seen in the stream, and the tests of every package are sorted by
  name.
\<close>

theorem C7_final_ordering:
  assumes "Parse srt ord input = Inr result"
  shows "map pr_PackageName result = first_seen_order (seen_packages (Lines input))
         \<and> (\<forall>pkg. pkg \<in> set result \<longrightarrow> sorted (map tr_Name (pr_Tests pkg)))"
proof -
  let ?st = "parse_lines ord initial_state (Lines input)"
  have res: "result = assemble srt (final_sweep ord ?st) (orderedPackageNames ?st)"
    using assms by (simp add: Parse_Inr)
  have ok: "packages_ok ?st"
    by (intro packages_ok_parse_lines packages_ok_initial)
  have "map pr_PackageName result = first_seen_order (seen_packages (Lines input))"
    unfolding res using result_names [OF ok] by (simp add: ordered_first_seen)
  moreover have "sorted (map tr_Name (pr_Tests pkg))" if "pkg \<in> set result" for pkg
  proof -
    from assemble_member [OF that [unfolded res]] obtain pkg0
      where "pkg = pkg0\<lparr>pr_Tests := sort_Slice srt (pr_Tests pkg0)\<rparr>" by blast
    then show ?thesis by (simp add: sorted_sort_Slice)
  qed
  ultimately show ?thesis by blast
qed

theorem C7_final_ordering_witness:
  "map pr_PackageName
     [\<lparr>pr_PackageName = ''pkg/b'', pr_Status = StatusPass, pr_SummaryOutput = [],
       pr_Tests = [\<lparr>tr_PackageName = ''pkg/b'', tr_Name = ''TestA'', tr_Status = StatusPass,
                    tr_Output = [], tr_Duration = 2000000000\<rparr>,
                   \<lparr>tr_PackageName = ''pkg/b'', tr_Name = ''TestB'', tr_Status = StatusPass,
                    tr_Output = [], tr_Duration = 1000000000\<rparr>],
       pr_Duration = 3000000000\<rparr>,
      \<lparr>pr_PackageName = ''pkg/a'', pr_Status = StatusPass, pr_SummaryOutput = [],
       pr_Tests = [], pr_Duration = 0\<rparr>]
   = first_seen_order (seen_packages
       [event ''run'' ''pkg/b'' ''TestB'' (Float64 0 0) [], event ''pass'' ''pkg/b'' ''TestB'' (Float64 1 0) [],
        event ''run'' ''pkg/a'' [] (Float64 0 0) [],
        event ''run'' ''pkg/b'' ''TestA'' (Float64 0 0) [], event ''pass'' ''pkg/b'' ''TestA'' (Float64 2 0) [],
        event ''pass'' ''pkg/a'' [] (Float64 0 0) [], event ''pass'' ''pkg/b'' [] (Float64 3 0) []])
   \<and> sorted [''TestA'', ''TestB'']"
proof -
  let ?lines = "[event ''run'' ''pkg/b'' ''TestB'' (Float64 0 0) [], event ''pass'' ''pkg/b'' ''TestB'' (Float64 1 0) [],
        event ''run'' ''pkg/a'' [] (Float64 0 0) [],
        event ''run'' ''pkg/b'' ''TestA'' (Float64 0 0) [], event ''pass'' ''pkg/b'' ''TestA'' (Float64 2 0) [],
        event ''pass'' ''pkg/a'' [] (Float64 0 0) [], event ''pass'' ''pkg/b'' [] (Float64 3 0) []]"
  let ?b = "\<lparr>pr_PackageName = ''pkg/b'', pr_Status = StatusPass, pr_SummaryOutput = [],
       pr_Tests = [\<lparr>tr_PackageName = ''pkg/b'', tr_Name = ''TestA'', tr_Status = StatusPass,
                    tr_Output = [], tr_Duration = 2000000000\<rparr>,
                   \<lparr>tr_PackageName = ''pkg/b'', tr_Name = ''TestB'', tr_Status = StatusPass,
                    tr_Output = [], tr_Duration = 1000000000\<rparr>],
       pr_Duration = 3000000000\<rparr>"
  let ?a = "\<lparr>pr_PackageName = ''pkg/a'', pr_Status = StatusPass, pr_SummaryOutput = [],
       pr_Tests = [], pr_Duration = 0\<rparr>"
  have p: "Parse insertion_sort insertion_order (stream ?lines) = Inr [?b, ?a]"
    by (simp add: stream_defs less_eq_char_def less_char_def)
  from C7_final_ordering [OF p] show ?thesis
    by (simp add: stream_def)
qed

text \<open>
  C4 (amended). A line that fails to decode is attached, as the text
  \<open>[Malformed JSON line n]: ...\<close> with its line number, to the summary of the package
  that was first seen last, and to nothing else; when no package has been seen yet the
  line changes nothing but the line counter (it is only logged). In both cases the
  lines after it are processed from the resulting state. When the stream ends with the
  line and a package is known, the text is the last summary line of that package in
  the result.
\<close>

theorem C4_malformed_line:
  "let st = parse_lines ord initial_state pre;
       st' = parse_line ord st (Malformed raw);
       known = first_seen_order (seen_packages pre)
   in parse_lines ord initial_state (pre @ Malformed raw # post) = parse_lines ord st' post
      \<and> orderedPackageNames st' = known
      \<and> currentTestResults st' = currentTestResults st
      \<and> lineNumber st' = Suc (length pre)
      \<and> (known = [] \<longrightarrow> packageResults st' = packageResults st)
      \<and> (known \<noteq> [] \<longrightarrow>
           (\<exists>pkg. packageResults st (last known) = Some pkg
              \<and> packageResults st' = (packageResults st)(last known \<mapsto>
                   pkg\<lparr>pr_SummaryOutput :=
                     pr_SummaryOutput pkg @ [malformed_text (Suc (length pre)) raw]\<rparr>))
           \<and> (\<exists>result pkg. Parse srt ord (stream (pre @ [Malformed raw])) = Inr result
                \<and> result_of result (last known) = Some pkg
                \<and> pr_SummaryOutput pkg \<noteq> []
                \<and> last (pr_SummaryOutput pkg) = malformed_text (Suc (length pre)) raw))"
proof -
  let ?st = "parse_lines ord initial_state pre"
  let ?st' = "parse_line ord ?st (Malformed raw)"
  let ?known = "first_seen_order (seen_packages pre)"
  let ?text = "malformed_text (Suc (length pre)) raw"
  have ok: "packages_ok ?st"
    by (intro packages_ok_parse_lines packages_ok_initial)
  have ord: "orderedPackageNames ?st = ?known"
    by (rule ordered_first_seen)
  have ln: "lineNumber ?st = length pre"
    by (simp add: lineNumber_parse_lines initial_state_def)
  have 1: "parse_lines ord initial_state (pre @ Malformed raw # post) = parse_lines ord ?st' post"
    by (simp add: parse_lines_append parse_lines_Cons)
  have 2: "orderedPackageNames ?st' = ?known" using ord by simp
  have 3: "currentTestResults ?st' = currentTestResults ?st" by simp
  have 4: "lineNumber ?st' = Suc (length pre)" using ln by simp
  have 5: "packageResults ?st' = packageResults ?st" if "?known = []"
    using that ord by (simp add: on_malformed_def)
  have 6: "\<exists>pkg. packageResults ?st (last ?known) = Some pkg
              \<and> packageResults ?st' = (packageResults ?st)(last ?known \<mapsto>
                   pkg\<lparr>pr_SummaryOutput := pr_SummaryOutput pkg @ [?text]\<rparr>)"
    if "?known \<noteq> []"
  proof -
    have "last ?known \<in> dom (packageResults ?st)"
      using that ord packages_ok_dom [OF ok] by simp
    then obtain pkg where "packageResults ?st (last ?known) = Some pkg" by blast
    then show ?thesis
      using that ord ln by (simp add: on_malformed_def)
  qed
  have 7: "\<exists>result pkg. Parse srt ord (stream (pre @ [Malformed raw])) = Inr result
                \<and> result_of result (last ?known) = Some pkg
                \<and> pr_SummaryOutput pkg \<noteq> [] \<and> last (pr_SummaryOutput pkg) = ?text"
    if "?known \<noteq> []"
  proof -
    from 6 [OF that] obtain pkg0 where
      st': "packageResults ?st' (last ?known) =
              Some (pkg0\<lparr>pr_SummaryOutput := pr_SummaryOutput pkg0 @ [?text]\<rparr>)"
      by auto
    have end_state: "parse_lines ord initial_state (Lines (stream (pre @ [Malformed raw]))) = ?st'"
      by (simp add: stream_def parse_lines_append parse_lines_Cons)
    from Parse_result_of [of "stream (pre @ [Malformed raw])" srt ord] obtain result
      where res: "Parse srt ord (stream (pre @ [Malformed raw])) = Inr result"
        and look: "\<And>p. result_of result p =
                 map_option (\<lambda>pkg. pkg\<lparr>pr_Tests := sort_Slice srt (pr_Tests pkg)\<rparr>)
                   (final_sweep ord ?st' p)"
      unfolding end_state by (auto simp: stream_def)
    obtain pkg1 where f: "final_sweep ord ?st' (last ?known) = Some pkg1"
      using st' by (auto simp: final_sweep_lookup simp del: parse_line.simps)
    from final_sweep_name [OF f] have "pr_SummaryOutput pkg1 = pr_SummaryOutput pkg0 @ [?text]"
      using st' by (auto simp del: parse_line.simps)
    then show ?thesis
      using res look [of "last ?known"] f by simp
  qed
  from 1 2 3 4 5 6 7 show ?thesis
    unfolding Let_def by (intro conjI impI) blast+
qed

theorem C4_malformed_line_witness:
  "packageResults (parse_lines insertion_order initial_state
       [event ''run'' ''pkgA'' [] (Float64 0 0) [], Malformed ''not json'', event ''pass'' ''pkgA'' [] (Float64 0 0) []])
     ''pkgA''
   = Some \<lparr>pr_PackageName = ''pkgA'', pr_Status = StatusPass,
           pr_SummaryOutput = [''[Malformed JSON line 2]: not json''],
           pr_Tests = [], pr_Duration = 0\<rparr>
   \<and> Parse insertion_sort insertion_order (stream [event ''run'' ''pkgA'' [] (Float64 0 0) [], Malformed ''not json''])
     = Inr [\<lparr>pr_PackageName = ''pkgA'', pr_Status = StatusRunning,
             pr_SummaryOutput = [''[Malformed JSON line 2]: not json''],
             pr_Tests = [], pr_Duration = 0\<rparr>]"
proof -
  have n: "nat_to_string (Suc (Suc 0)) = ''2''"
    by (simp add: nat_to_string.simps digit_char_def)
  have k: "first_seen_order (seen_packages [event ''run'' ''pkgA'' [] (Float64 0 0) []]) = [''pkgA'']"
    by (simp add: event_def named_package_def)
  have s: "packageResults (parse_lines insertion_order initial_state [event ''run'' ''pkgA'' [] (Float64 0 0) []])
             ''pkgA''
           = Some \<lparr>pr_PackageName = ''pkgA'', pr_Status = StatusRunning, pr_SummaryOutput = [],
                   pr_Tests = [], pr_Duration = 0\<rparr>"
    by (simp add: stream_defs)
  note w = C4_malformed_line [of insertion_order "[event ''run'' ''pkgA'' [] (Float64 0 0) []]" "''not json''"
      "[event ''pass'' ''pkgA'' [] (Float64 0 0) []]" insertion_sort, unfolded Let_def k]
  show ?thesis
    using w s by (simp add: stream_defs n)
qed

theorem C4_no_bucket_counterexample:
  "Parse insertion_sort insertion_order (stream [Malformed ''not json'']) = Inr []
   \<and> packageResults (parse_lines insertion_order initial_state [Malformed ''not json''])
     = Map.empty"
  by (simp add: stream_defs)

text \<open>
  C10 (amended). Take a stream in which no event names the package
  \<open>_orphaned_output_\<close> in its own package field, and its last event with no package,
  no test and action \<open>output\<close>. Then the result holds the package \<open>_orphaned_output_\<close>,
  at the place of its first sight among the packages, with status \<open>UNKNOWN\<close>, no tests,
  and the trimmed output of that event among its summary lines.
\<close>

theorem C10_orphaned_output:
  assumes "ScanErr input = None"
    and "Lines input = pre @ Decoded e # post"
    and "orphaned_output e"
    and "\<And>e'. Decoded e' \<in> set post \<Longrightarrow> \<not> orphaned_output e'"
    and "\<And>e'. Decoded e' \<in> set (Lines input) \<Longrightarrow> ev_Package e' \<noteq> orphanedOutputPackage"
  shows "\<exists>result pkg.
           Parse srt ord input = Inr result
           \<and> map pr_PackageName result = first_seen_order (seen_packages (Lines input))
           \<and> orphanedOutputPackage \<in> set (first_seen_order (seen_packages (Lines input)))
           \<and> result_of result orphanedOutputPackage = Some pkg
           \<and> pr_Status pkg = StatusUnknown \<and> pr_Tests pkg = []
           \<and> TrimRightNewline (ev_Output e) \<in> set (pr_SummaryOutput pkg)"
proof -
  let ?O = orphanedOutputPackage
  let ?mid = "parse_lines ord initial_state (pre @ [Decoded e])"
  let ?st = "parse_lines ord initial_state (Lines input)"
  have st: "?st = parse_lines ord ?mid post"
    using assms(2) by (simp add: parse_lines_def)
  have ok: "packages_ok ?st"
    by (intro packages_ok_parse_lines packages_ok_initial)
  have "packages_ok (parse_lines ord initial_state pre)"
    by (intro packages_ok_parse_lines packages_ok_initial)
  then have "packageResults ?mid ?O =
           Some ((new_package ?O)\<lparr>pr_SummaryOutput := [TrimRightNewline (ev_Output e)]\<rparr>)"
    using parse_line_orphaned_output [OF _ assms(3)] packages_ok_nonempty
    by (simp add: parse_lines_append parse_lines_Cons del: parse_line.simps)
  then obtain pkg where pkg: "packageResults ?st ?O = Some pkg"
    "TrimRightNewline (ev_Output e) \<in> set (pr_SummaryOutput pkg)"
    unfolding st
    using orphan_line_parse_lines [of ?mid _ "TrimRightNewline (ev_Output e)" post ord]
      assms(2,4,5) by auto
  have u: "orphan_untouched ?st"
    using assms(5) by (intro orphan_untouched_parse_lines orphan_untouched_initial)
  then have f: "final_sweep ord ?st ?O = Some pkg"
    using pkg(1) by (rule orphan_untouched_final)
  have un: "pr_Status pkg = StatusUnknown" "pr_Tests pkg = []"
    using u pkg(1) by (auto simp: orphan_untouched_def)
  from Parse_result_of [OF assms(1), of srt ord] obtain result
    where res: "Parse srt ord input = Inr result"
      and look: "\<And>p. result_of result p =
                 map_option (\<lambda>pkg. pkg\<lparr>pr_Tests := sort_Slice srt (pr_Tests pkg)\<rparr>)
                   (final_sweep ord ?st p)"
    by auto
  have names: "map pr_PackageName result = first_seen_order (seen_packages (Lines input))"
    using res result_names [OF ok, of srt ord] by (simp add: Parse_Inr ordered_first_seen)
  have "?O \<in> dom (packageResults ?st)" using pkg(1) by blast
  then have mem: "?O \<in> set (first_seen_order (seen_packages (Lines input)))"
    using packages_ok_dom [OF ok] by (simp add: ordered_first_seen)
  have "result_of result ?O = Some (pkg\<lparr>pr_Tests := sort_Slice srt (pr_Tests pkg)\<rparr>)"
    using look [of ?O] f by simp
  then show ?thesis
    using res names mem un pkg(2) by auto
qed

theorem C10_orphaned_output_witness:
  "Parse insertion_sort insertion_order
     (stream [event ''run'' ''pkgA'' [] (Float64 0 0) [], event ''output'' [] [] (Float64 0 0) ''preamble'',
              event ''pass'' ''pkgA'' [] (Float64 0 0) []])
   = Inr [\<lparr>pr_PackageName = ''pkgA'', pr_Status = StatusPass, pr_SummaryOutput = [],
           pr_Tests = [], pr_Duration = 0\<rparr>,
          \<lparr>pr_PackageName = ''_orphaned_output_'', pr_Status = StatusUnknown,
           pr_SummaryOutput = [''preamble''], pr_Tests = [], pr_Duration = 0\<rparr>]
   \<and> first_seen_order (seen_packages
        [event ''run'' ''pkgA'' [] (Float64 0 0) [], event ''output'' [] [] (Float64 0 0) ''preamble'',
         event ''pass'' ''pkgA'' [] (Float64 0 0) []])
     = [''pkgA'', ''_orphaned_output_'']"
proof -
  let ?input = "stream [event ''run'' ''pkgA'' [] (Float64 0 0) [], event ''output'' [] [] (Float64 0 0) ''preamble'',
              event ''pass'' ''pkgA'' [] (Float64 0 0) []]"
  let ?e = "\<lparr>ev_Action = ''output'', ev_Package = [], ev_Test = [], ev_Elapsed = Float64 0 0,
             ev_Output = ''preamble''\<rparr>"
  have 1: "ScanErr ?input = None" by (simp add: stream_def)
  have 2: "Lines ?input = [event ''run'' ''pkgA'' [] (Float64 0 0) []] @ Decoded ?e # [event ''pass'' ''pkgA'' [] (Float64 0 0) []]"
    by (simp add: stream_def event_def)
  have 3: "orphaned_output ?e" by (simp add: orphaned_output_def)
  have 4: "\<And>e'. Decoded e' \<in> set [event ''pass'' ''pkgA'' [] (Float64 0 0) []] \<Longrightarrow> \<not> orphaned_output e'"
    by (auto simp: event_def orphaned_output_def)
  have 5: "\<And>e'. Decoded e' \<in> set (Lines ?input) \<Longrightarrow> ev_Package e' \<noteq> orphanedOutputPackage"
    by (auto simp: stream_def event_def orphanedOutputPackage_def)
  from C10_orphaned_output [OF 1 2 3 4 5, of insertion_sort insertion_order]
  show ?thesis
    by (simp add: stream_defs named_package_def)
qed

theorem C10_named_package_counterexample:
  "Parse insertion_sort insertion_order
     (stream [event ''output'' [] [] (Float64 0 0) ''preamble'',
              event ''fail'' ''_orphaned_output_'' [] (Float64 0 0) []])
   = Inr [\<lparr>pr_PackageName = ''_orphaned_output_'', pr_Status = StatusFail,
           pr_SummaryOutput = [''preamble''], pr_Tests = [], pr_Duration = 0\<rparr>]"
  by (simp add: stream_defs)

text \<open>
  C3 (amended). Take a stream in which a \<open>run\<close> event for the test \<open>T\<close> of the package
  \<open>P\<close> (both names not empty) is followed by no terminal event of that test, no
  terminal event of the package \<open>P\<close> itself, and no \<open>run\<close> event of a test of another
  package that is tracked under the same key \<open>P/T\<close>. Then \<open>Parse\<close> returns the package
  \<open>P\<close> with status \<open>FAIL\<close>, and its tests of name \<open>T\<close> are those the package held at the
  end of the stream and exactly one more: a record of \<open>P\<close> and \<open>T\<close> with status \<open>FAIL\<close>
  whose last output line is the text \<open>Test did not complete ...\<close>.
\<close>

theorem C3_unfinished_test:
  assumes "ScanErr input = None"
    and "Lines input = pre @ Decoded r # post"
    and "ev_Action r = ''run''" "ev_Package r = P" "ev_Test r = T" "P \<noteq> []" "T \<noteq> []"
    and "\<And>l. l \<in> set post \<Longrightarrow> leaves_in_flight P T l"
  shows "\<exists>result pkg before t.
           Parse srt ord input = Inr result
           \<and> result_of result P = Some pkg \<and> pr_Status pkg = StatusFail
           \<and> packageResults (parse_lines ord initial_state (Lines input)) P = Some before
           \<and> mset (filter (\<lambda>x. tr_Name x = T) (pr_Tests pkg))
             = mset (filter (\<lambda>x. tr_Name x = T) (pr_Tests before)) + {#t#}
           \<and> tr_PackageName t = P \<and> tr_Name t = T \<and> tr_Status t = StatusFail
           \<and> tr_Output t \<noteq> [] \<and> last (tr_Output t) = incomplete_text"
proof -
  let ?key = "P @ ''/'' @ T"
  let ?before_run = "parse_lines ord initial_state pre"
  let ?after_run = "parse_line ord ?before_run (Decoded r)"
  let ?end = "parse_lines ord initial_state (Lines input)"
  have st: "?end = parse_lines ord ?after_run post"
    using assms(2) by (simp add: parse_lines_def)
  have ok1: "tracked_ok ?after_run"
    by (intro tracked_ok_parse_line tracked_ok_parse_lines tracked_ok_initial)
  have ok: "tracked_ok ?end"
    by (intro tracked_ok_parse_lines tracked_ok_initial)
  have ne: "ev_Package r \<noteq> []" "ev_Test r \<noteq> []"
    using assms(4-7) by simp_all
  have "\<exists>t. (?key, t) \<in> set (currentTestResults ?after_run) \<and> tr_PackageName t = P \<and> tr_Name t = T"
    using parse_line_run_test [where r = r and ord = ord and st = ?before_run, OF assms(3) ne]
    unfolding assms(4,5) .
  then obtain t1
    where t1: "(?key, t1) \<in> set (currentTestResults ?after_run)" "tr_PackageName t1 = P" "tr_Name t1 = T"
    by blast
  have "\<exists>t. (?key, t) \<in> set (currentTestResults ?end) \<and> tr_PackageName t = P \<and> tr_Name t = T"
    unfolding st using ok1 t1 assms(8) assms(7) by (rule parse_lines_keeps_in_flight)
  then obtain t0 where mem: "(?key, t0) \<in> set (currentTestResults ?end)"
    and t0: "tr_PackageName t0 = P" "tr_Name t0 = T"
    by blast
  from final_sweep_in_flight [OF ok mem t0, of ord] obtain before after
    where b: "packageResults ?end P = Some before"
      and a: "final_sweep ord ?end P = Some after" "pr_Status after = StatusFail"
      and f: "filter (\<lambda>x. tr_Name x = T) (pr_Tests after)
             = filter (\<lambda>x. tr_Name x = T) (pr_Tests before) @ [fail_unfinished incomplete_text t0]"
    by blast
  from Parse_result_of [OF assms(1), of srt ord] obtain result
    where res: "Parse srt ord input = Inr result"
      and look: "\<And>p. result_of result p =
                 map_option (\<lambda>pkg. pkg\<lparr>pr_Tests := sort_Slice srt (pr_Tests pkg)\<rparr>)
                   (final_sweep ord ?end p)"
    by auto
  let ?pkg = "after\<lparr>pr_Tests := sort_Slice srt (pr_Tests after)\<rparr>"
  let ?t = "fail_unfinished incomplete_text t0"
  have 1: "result_of result P = Some ?pkg" using look [of P] a(1) by simp
  have "mset (filter (\<lambda>x. tr_Name x = T) (pr_Tests ?pkg))
        = mset (filter (\<lambda>x. tr_Name x = T) (pr_Tests after))"
    by simp
  then have 2: "mset (filter (\<lambda>x. tr_Name x = T) (pr_Tests ?pkg))
        = mset (filter (\<lambda>x. tr_Name x = T) (pr_Tests before)) + {#?t#}"
    unfolding f by simp
  show ?thesis
    using res 1 a(2) b 2 t0
    by (intro exI [of _ result] exI [of _ ?pkg] exI [of _ before] exI [of _ ?t]) simp
qed

theorem C3_unfinished_test_witness:
  "Parse insertion_sort insertion_order (stream [event ''run'' ''pkgA'' ''TestX'' (Float64 0 0) []])
   = Inr [\<lparr>pr_PackageName = ''pkgA'', pr_Status = StatusFail, pr_SummaryOutput = [],
           pr_Tests = [\<lparr>tr_PackageName = ''pkgA'', tr_Name = ''TestX'', tr_Status = StatusFail,
                        tr_Output = [incomplete_text], tr_Duration = 0\<rparr>],
           pr_Duration = 0\<rparr>]"
proof -
  let ?r = "\<lparr>ev_Action = ''run'', ev_Package = ''pkgA'', ev_Test = ''TestX'',
             ev_Elapsed = Float64 0 0, ev_Output = []\<rparr>"
  let ?input = "stream [event ''run'' ''pkgA'' ''TestX'' (Float64 0 0) []]"
  have 1: "ScanErr ?input = None" by (simp add: stream_def)
  have 2: "Lines ?input = [] @ Decoded ?r # []" by (simp add: stream_def event_def)
  note w = C3_unfinished_test [OF 1 2, of "''pkgA''" "''TestX''" insertion_sort insertion_order]
  show ?thesis
    using w by (simp add: stream_defs)
qed

theorem C3_package_skip_counterexample:
  "Parse insertion_sort insertion_order
     (stream [event ''run'' ''pkgA'' ''TestX'' (Float64 0 0) [],
              event ''skip'' ''pkgA'' [] (Float64 0 0) []])
   = Inr [\<lparr>pr_PackageName = ''pkgA'', pr_Status = StatusSkip, pr_SummaryOutput = [],
           pr_Tests = [\<lparr>tr_PackageName = ''pkgA'', tr_Name = ''TestX'', tr_Status = StatusFail,
                        tr_Output = [unfinished_text], tr_Duration = 0\<rparr>],
           pr_Duration = 0\<rparr>]"
  by (simp add: stream_defs)

text \<open>
  C1. The streams \<open>{run pkgA/TestX}\<close>, \<open>{fail pkgA/TestX}\<close>, \<open>{pass pkgA}\<close> and
  \<open>{pass pkgA}\<close>, \<open>{fail pkgA/TestX}\<close>: in both the test is finalized with status
  \<open>FAIL\<close>, and the status of its package in the result is \<open>PASS\<close>, whatever the sorting
  function and the order of map iteration.
\<close>

theorem C1_failed_test_in_passed_package:
  "Parse srt ord
     (stream [event ''run'' ''pkgA'' ''TestX'' (Float64 0 0) [],
              event ''fail'' ''pkgA'' ''TestX'' (Float64 0 0) [],
              event ''pass'' ''pkgA'' [] (Float64 0 0) []])
   = Inr [\<lparr>pr_PackageName = ''pkgA'', pr_Status = StatusPass, pr_SummaryOutput = [],
           pr_Tests = [\<lparr>tr_PackageName = ''pkgA'', tr_Name = ''TestX'', tr_Status = StatusFail,
                        tr_Output = [], tr_Duration = 0\<rparr>],
           pr_Duration = 0\<rparr>]
   \<and> Parse srt ord
     (stream [event ''pass'' ''pkgA'' [] (Float64 0 0) [],
              event ''fail'' ''pkgA'' ''TestX'' (Float64 0 0) []])
   = Inr [\<lparr>pr_PackageName = ''pkgA'', pr_Status = StatusPass, pr_SummaryOutput = [],
           pr_Tests = [\<lparr>tr_PackageName = ''pkgA'', tr_Name = ''TestX'', tr_Status = StatusFail,
                        tr_Output = [], tr_Duration = 0\<rparr>],
           pr_Duration = 0\<rparr>]"
  by (simp add: stream_defs)

end
